theory Spec2Isabelle
  imports Main
begin

section \<open>The informer manager of pkg/kubernetes/informers.go\<close>

text \<open>
  The file is glue around three collaborators of client-go and sample-controller: the
  shared informer factory, the shared informer (the watch-cache primitive of one resource
  kind) and the signal handler that supplies the stop channel. The Go code allocates
  objects and shares them through pointers, and what it promises is about identity
  (which manager, which informer, which channel), so the model keeps an explicit store:
  a world holds three heaps, the two package-level singleton variables, the goroutines
  launched so far and the log. Every Go function is a function from world to world.
  A pointer is an address; the nil pointer and an address that holds no object are the
  same thing to a lookup, which then yields the fault \<open>NilDereference\<close>, Go's run-time
  panic. \<open>CloseOfClosedChannel\<close> is the panic of closing a channel twice.
  \<open>NeverReturns\<close> is the fault of a call that blocks for ever.
\<close>

subsection \<open>Values\<close>

type_synonym ptr = nat
type_synonym chan = nat
type_synonym clientset = nat
type_synonym callback = nat
type_synonym ctx = nat
type_synonym Duration = int

datatype fault = NilDereference | NeverReturns | CloseOfClosedChannel

datatype error = HandlerRefused

text \<open>The resource kinds for which informers.go asks for an informer.\<close>

datatype kind =
    Nodes | CSINodes | PersistentVolumeClaims | PersistentVolumes
  | Namespaces | ConfigMaps | Pods | VolumeAttachments

text \<open>\<open>cache.ResourceEventHandlerFuncs\<close>: one registration, three callbacks.\<close>

record ResourceEventHandlerFuncs =
  AddFunc :: callback
  UpdateFunc :: callback
  DeleteFunc :: callback

text \<open>
  How an informer was constructed: by a shared factory (identified by its address), or
  by \<open>v1.NewFilteredConfigMapInformer(client, namespace, resyncPeriod, ...)\<close>.
\<close>

datatype origin = FromFactory ptr | Filtered clientset string Duration

record SharedInformer =
  kindOf :: kind
  madeBy :: origin
  handlers :: "ResourceEventHandlerFuncs list"

record SharedInformerFactory =
  factoryClient :: clientset
  defaultResync :: Duration
  factoryInformers :: "kind \<rightharpoonup> ptr"

text \<open>
  \<open>cache.InformerSynced\<close> is a function value; the only ones informers.go makes are
  the method values \<open>informer.HasSynced\<close>, each bound to one informer. A lister is a
  read-only view of one informer's indexer.
\<close>

datatype InformerSynced = HasSynced ptr

datatype lister = ListerOf ptr

text \<open>
  Modelled from the spec: the declaration of \<open>struct InformerManager\<close> is not part of
  informers.go. The fields are the ones informers.go reads and writes, with the types
  its assignments give them: a client handle, the factory, the stop channel (nil-able),
  one informer slot per field name, and the synced predicates (nil until set).
\<close>

record InformerManager =
  client :: clientset
  informerFactory :: ptr
  stopCh :: "chan option"
  nodeInformer :: "ptr option"
  pvInformer :: "ptr option"
  pvcInformer :: "ptr option"
  namespaceInformer :: "ptr option"
  configMapInformer :: "ptr option"
  podInformer :: "ptr option"
  volumeAttachmentInformer :: "ptr option"
  pvSynced :: "InformerSynced option"
  pvcSynced :: "InformerSynced option"
  namespaceSynced :: "InformerSynced option"
  configMapSynced :: "InformerSynced option"
  podSynced :: "InformerSynced option"

text \<open>A goroutine launched by a \<open>go\<close> statement, with the arguments it was given.\<close>

datatype goroutine =
    FactoryStart ptr "chan option"
  | InformerRun ptr "chan option"

record world =
  managers :: "ptr \<rightharpoonup> InformerManager"
  factories :: "ptr \<rightharpoonup> SharedInformerFactory"
  informers :: "ptr \<rightharpoonup> SharedInformer"
  inClusterInformerManagerInstance :: "ptr option"
  supervisorInformerManagerInstance :: "ptr option"
  onlyOneSignalHandlerClosed :: bool
  nextPtr :: ptr
  nextChan :: chan
  goroutines :: "goroutine list"
  logged :: "(ctx \<times> string) list"

text \<open>
  The process at start: both singleton variables are nil, nothing is allocated, and the
  channel \<open>onlyOneSignalHandler\<close> of the signals package is open.
\<close>

definition initial_world :: world where
  "initial_world =
     \<lparr>managers = Map.empty, factories = Map.empty, informers = Map.empty,
      inClusterInformerManagerInstance = None, supervisorInformerManagerInstance = None,
      onlyOneSignalHandlerClosed = False, nextPtr = 0, nextChan = 0, goroutines = [], logged = []\<rparr>"

subsection \<open>Constants of informers.go\<close>

definition Nanosecond :: Duration where "Nanosecond = 1"
definition Second :: Duration where "Second = 1000000000 * Nanosecond"
definition Minute :: Duration where "Minute = 60 * Second"

definition resyncPeriodConfigMapInformer :: Duration where
  "resyncPeriodConfigMapInformer = 30 * Minute"

definition noResyncPeriodFunc :: Duration where
  "noResyncPeriodFunc = 0"

subsection \<open>The collaborators, as far as informers.go uses them\<close>

text \<open>\<open>make(chan struct{})\<close>: a channel nobody else holds.\<close>

definition make_chan :: "world \<Rightarrow> chan option \<times> world" where
  "make_chan w = (Some (nextChan w), w\<lparr>nextChan := Suc (nextChan w)\<rparr>)"

text \<open>
  \<open>signals.SetupSignalHandler()\<close> belongs to sample-controller. Its first statement is
  \<open>close(onlyOneSignalHandler)\<close>, on a channel of its package, so that a second call
  in one process panics; a first call goes on to make the stop channel and hand it out.
\<close>

definition SetupSignalHandler :: "world \<Rightarrow> fault + (chan option \<times> world)" where
  "SetupSignalHandler w =
     (if onlyOneSignalHandlerClosed w then Inl CloseOfClosedChannel
      else Inr (make_chan (w\<lparr>onlyOneSignalHandlerClosed := True\<rparr>)))"

text \<open>\<open>informers.NewSharedInformerFactory(client, defaultResync)\<close>: a factory with no informer yet.\<close>

definition NewSharedInformerFactory :: "clientset \<Rightarrow> Duration \<Rightarrow> world \<Rightarrow> ptr \<times> world" where
  "NewSharedInformerFactory c d w =
     (nextPtr w,
      w\<lparr>factories := (factories w)(nextPtr w \<mapsto>
            \<lparr>factoryClient = c, defaultResync = d, factoryInformers = Map.empty\<rparr>),
        nextPtr := Suc (nextPtr w)\<rparr>)"

text \<open>
  \<open>factory.Core().V1().Nodes().Informer()\<close> and its likes: the factory keeps one
  informer per kind and makes it at the first request.
\<close>

definition InformerFor :: "ptr \<Rightarrow> kind \<Rightarrow> world \<Rightarrow> fault + (ptr \<times> world)" where
  "InformerFor f k w =
     (case factories w f of
        None \<Rightarrow> Inl NilDereference
      | Some F \<Rightarrow>
          (case factoryInformers F k of
             Some i \<Rightarrow> Inr (i, w)
           | None \<Rightarrow>
               Inr (nextPtr w,
                    w\<lparr>informers := (informers w)(nextPtr w \<mapsto>
                          \<lparr>kindOf = k, madeBy = FromFactory f, handlers = []\<rparr>),
                      factories := (factories w)(f \<mapsto>
                          F\<lparr>factoryInformers := (factoryInformers F)(k \<mapsto> nextPtr w)\<rparr>),
                      nextPtr := Suc (nextPtr w)\<rparr>)))"

text \<open>\<open>factory.Core().V1().ConfigMaps().Lister()\<close> and its likes: a lister over the factory's informer of the kind.\<close>

definition ListerFor :: "ptr \<Rightarrow> kind \<Rightarrow> world \<Rightarrow> fault + (lister \<times> world)" where
  "ListerFor f k w =
     (case InformerFor f k w of
        Inl e \<Rightarrow> Inl e
      | Inr (i, w') \<Rightarrow> Inr (ListerOf i, w'))"

text \<open>\<open>v1.NewFilteredConfigMapInformer\<close>: an informer of its own, in no factory.\<close>

definition NewFilteredConfigMapInformer ::
    "clientset \<Rightarrow> string \<Rightarrow> Duration \<Rightarrow> world \<Rightarrow> ptr \<times> world" where
  "NewFilteredConfigMapInformer c namespace resync w =
     (nextPtr w,
      w\<lparr>informers := (informers w)(nextPtr w \<mapsto>
            \<lparr>kindOf = ConfigMaps, madeBy = Filtered c namespace resync, handlers = []\<rparr>),
        nextPtr := Suc (nextPtr w)\<rparr>)"

text \<open>
  \<open>informer.AddEventHandler(h)\<close>. Whether the informer takes the handler is the
  informer's business; \<open>refused\<close> is its answer on this call. A refusal yields a non-nil
  error and leaves the informer as it was.
\<close>

definition AddEventHandler ::
    "ptr \<Rightarrow> ResourceEventHandlerFuncs \<Rightarrow> bool \<Rightarrow> world \<Rightarrow> fault + (error option \<times> world)" where
  "AddEventHandler i h refused w =
     (case informers w i of
        None \<Rightarrow> Inl NilDereference
      | Some I \<Rightarrow>
          if refused then Inr (Some HandlerRefused, w)
          else Inr (None, w\<lparr>informers := (informers w)(i \<mapsto> I\<lparr>handlers := handlers I @ [h]\<rparr>)\<rparr>))"

text \<open>A \<open>go\<close> statement: the goroutine is recorded with its arguments, the caller goes on.\<close>

definition go :: "goroutine \<Rightarrow> world \<Rightarrow> world" where
  "go g w = w\<lparr>goroutines := goroutines w @ [g]\<rparr>"

text \<open>\<open>log.Info(msg)\<close> on the logger of a context.\<close>

definition Info :: "ctx \<Rightarrow> string \<Rightarrow> world \<Rightarrow> world" where
  "Info c msg w = w\<lparr>logged := logged w @ [(c, msg)]\<rparr>"

text \<open>Writing a manager back through its pointer.\<close>

definition store :: "ptr \<Rightarrow> InformerManager \<Rightarrow> world \<Rightarrow> world" where
  "store im m w = w\<lparr>managers := (managers w)(im \<mapsto> m)\<rparr>"

subsection \<open>NewInformer\<close>

text \<open>
  The two mutexes are taken and released inside the call; in this sequential model a call
  is one step, so they leave no trace. The fields of the struct literal are evaluated in
  the order written: the signal handler is set up before the factory is made, and its
  panic ends the call.
\<close>

definition NewInformer :: "ctx \<Rightarrow> clientset \<Rightarrow> bool \<Rightarrow> world \<Rightarrow> fault + (ptr \<times> world)" where
  "NewInformer c clnt inClusterClnt w =
     (case (if inClusterClnt then inClusterInformerManagerInstance w
            else supervisorInformerManagerInstance w) of
        Some informerInstance \<Rightarrow> Inr (informerInstance, w)
      | None \<Rightarrow>
          (case SetupSignalHandler w of
             Inl e \<Rightarrow> Inl e
           | Inr (stop, w1) \<Rightarrow>
               (let (fac, w2) = NewSharedInformerFactory clnt noResyncPeriodFunc w1;
                    informerInstance = nextPtr w2;
                    w3 = store informerInstance
                           \<lparr>client = clnt, informerFactory = fac, stopCh = stop,
                            nodeInformer = None, pvInformer = None, pvcInformer = None,
                            namespaceInformer = None, configMapInformer = None,
                            podInformer = None, volumeAttachmentInformer = None,
                            pvSynced = None, pvcSynced = None, namespaceSynced = None,
                            configMapSynced = None, podSynced = None\<rparr>
                           (w2\<lparr>nextPtr := Suc (nextPtr w2)\<rparr>)
                in if inClusterClnt
                   then Inr (informerInstance,
                          Info c ''Created new informer factory for in-cluster client''
                            (w3\<lparr>inClusterInformerManagerInstance := Some informerInstance\<rparr>))
                   else Inr (informerInstance,
                          Info c ''Created new informer factory for supervisor client''
                            (w3\<lparr>supervisorInformerManagerInstance := Some informerInstance\<rparr>)))))"

subsection \<open>The listener registrations\<close>

text \<open>
  Each registration reads the manager through \<open>im\<close>, fills the informer slot it names if
  that slot is nil, sets a synced predicate where the source does, hands the three
  callbacks to the informer in the slot, and returns; the source has no result value, so
  the only result is the world. The manager is written back on every return path.
\<close>

definition AddNodeListener ::
    "ptr \<Rightarrow> callback \<Rightarrow> callback \<Rightarrow> callback \<Rightarrow> bool \<Rightarrow> world \<Rightarrow> fault + world" where
  "AddNodeListener im add update remove refused w =
     (case managers w im of
        None \<Rightarrow> Inl NilDereference
      | Some m \<Rightarrow>
          (case (case nodeInformer m of
                   None \<Rightarrow>
                     (case InformerFor (informerFactory m) Nodes w of
                        Inl e \<Rightarrow> Inl e
                      | Inr (i, w') \<Rightarrow> Inr (i, m\<lparr>nodeInformer := Some i\<rparr>, w'))
                 | Some i \<Rightarrow> Inr (i, m, w)) of
             Inl e \<Rightarrow> Inl e
           | Inr (i, m1, w1) \<Rightarrow>
               (case AddEventHandler i
                       \<lparr>AddFunc = add, UpdateFunc = update, DeleteFunc = remove\<rparr> refused w1 of
                  Inl e \<Rightarrow> Inl e
                | Inr (err, w2) \<Rightarrow>
                    if err \<noteq> None then Inr (store im m1 w2) else Inr (store im m1 w2))))"

definition AddCSINodeListener ::
    "ptr \<Rightarrow> callback \<Rightarrow> callback \<Rightarrow> callback \<Rightarrow> bool \<Rightarrow> world \<Rightarrow> fault + world" where
  "AddCSINodeListener im add update remove refused w =
     (case managers w im of
        None \<Rightarrow> Inl NilDereference
      | Some m \<Rightarrow>
          (case (case nodeInformer m of
                   None \<Rightarrow>
                     (case InformerFor (informerFactory m) CSINodes w of
                        Inl e \<Rightarrow> Inl e
                      | Inr (i, w') \<Rightarrow> Inr (i, m\<lparr>nodeInformer := Some i\<rparr>, w'))
                 | Some i \<Rightarrow> Inr (i, m, w)) of
             Inl e \<Rightarrow> Inl e
           | Inr (i, m1, w1) \<Rightarrow>
               (case AddEventHandler i
                       \<lparr>AddFunc = add, UpdateFunc = update, DeleteFunc = remove\<rparr> refused w1 of
                  Inl e \<Rightarrow> Inl e
                | Inr (err, w2) \<Rightarrow>
                    if err \<noteq> None then Inr (store im m1 w2) else Inr (store im m1 w2))))"

definition AddPVCListener ::
    "ptr \<Rightarrow> callback \<Rightarrow> callback \<Rightarrow> callback \<Rightarrow> bool \<Rightarrow> world \<Rightarrow> fault + world" where
  "AddPVCListener im add update remove refused w =
     (case managers w im of
        None \<Rightarrow> Inl NilDereference
      | Some m \<Rightarrow>
          (case (case pvcInformer m of
                   None \<Rightarrow>
                     (case InformerFor (informerFactory m) PersistentVolumeClaims w of
                        Inl e \<Rightarrow> Inl e
                      | Inr (i, w') \<Rightarrow> Inr (i, m\<lparr>pvcInformer := Some i\<rparr>, w'))
                 | Some i \<Rightarrow> Inr (i, m, w)) of
             Inl e \<Rightarrow> Inl e
           | Inr (i, m1, w1) \<Rightarrow>
               (let m2 = m1\<lparr>pvcSynced := Some (HasSynced i)\<rparr> in
                case AddEventHandler i
                       \<lparr>AddFunc = add, UpdateFunc = update, DeleteFunc = remove\<rparr> refused w1 of
                  Inl e \<Rightarrow> Inl e
                | Inr (err, w2) \<Rightarrow>
                    if err \<noteq> None then Inr (store im m2 w2) else Inr (store im m2 w2))))"

definition AddPVListener ::
    "ptr \<Rightarrow> callback \<Rightarrow> callback \<Rightarrow> callback \<Rightarrow> bool \<Rightarrow> world \<Rightarrow> fault + world" where
  "AddPVListener im add update remove refused w =
     (case managers w im of
        None \<Rightarrow> Inl NilDereference
      | Some m \<Rightarrow>
          (case (case pvInformer m of
                   None \<Rightarrow>
                     (case InformerFor (informerFactory m) PersistentVolumes w of
                        Inl e \<Rightarrow> Inl e
                      | Inr (i, w') \<Rightarrow> Inr (i, m\<lparr>pvInformer := Some i\<rparr>, w'))
                 | Some i \<Rightarrow> Inr (i, m, w)) of
             Inl e \<Rightarrow> Inl e
           | Inr (i, m1, w1) \<Rightarrow>
               (let m2 = m1\<lparr>pvSynced := Some (HasSynced i)\<rparr> in
                case AddEventHandler i
                       \<lparr>AddFunc = add, UpdateFunc = update, DeleteFunc = remove\<rparr> refused w1 of
                  Inl e \<Rightarrow> Inl e
                | Inr (err, w2) \<Rightarrow>
                    if err \<noteq> None then Inr (store im m2 w2) else Inr (store im m2 w2))))"

definition AddNamespaceListener ::
    "ptr \<Rightarrow> callback \<Rightarrow> callback \<Rightarrow> callback \<Rightarrow> bool \<Rightarrow> world \<Rightarrow> fault + world" where
  "AddNamespaceListener im add update remove refused w =
     (case managers w im of
        None \<Rightarrow> Inl NilDereference
      | Some m \<Rightarrow>
          (case (case namespaceInformer m of
                   None \<Rightarrow>
                     (case InformerFor (informerFactory m) Namespaces w of
                        Inl e \<Rightarrow> Inl e
                      | Inr (i, w') \<Rightarrow> Inr (i, m\<lparr>namespaceInformer := Some i\<rparr>, w'))
                 | Some i \<Rightarrow> Inr (i, m, w)) of
             Inl e \<Rightarrow> Inl e
           | Inr (i, m1, w1) \<Rightarrow>
               (let m2 = m1\<lparr>namespaceSynced := Some (HasSynced i)\<rparr> in
                case AddEventHandler i
                       \<lparr>AddFunc = add, UpdateFunc = update, DeleteFunc = remove\<rparr> refused w1 of
                  Inl e \<Rightarrow> Inl e
                | Inr (err, w2) \<Rightarrow>
                    if err \<noteq> None then Inr (store im m2 w2) else Inr (store im m2 w2))))"

text \<open>
  The config-map registration takes a client and a namespace of its own, builds its
  informer outside the factory, and after a successful attachment makes a channel and
  launches the informer's run loop on it.
\<close>

definition AddConfigMapListener ::
    "ptr \<Rightarrow> ctx \<Rightarrow> clientset \<Rightarrow> string \<Rightarrow> callback \<Rightarrow> callback \<Rightarrow> callback \<Rightarrow> bool \<Rightarrow>
     world \<Rightarrow> fault + world" where
  "AddConfigMapListener im c clnt namespace add update remove refused w =
     (case managers w im of
        None \<Rightarrow> Inl NilDereference
      | Some m \<Rightarrow>
          (let (i, m1, w1) =
                 (case configMapInformer m of
                    None \<Rightarrow>
                      (let (i, w') = NewFilteredConfigMapInformer clnt namespace
                                       resyncPeriodConfigMapInformer w
                       in (i, m\<lparr>configMapInformer := Some i\<rparr>, w'))
                  | Some i \<Rightarrow> (i, m, w));
               m2 = m1\<lparr>configMapSynced := Some (HasSynced i)\<rparr>
           in case AddEventHandler i
                     \<lparr>AddFunc = add, UpdateFunc = update, DeleteFunc = remove\<rparr> refused w1 of
                Inl e \<Rightarrow> Inl e
              | Inr (err, w2) \<Rightarrow>
                  if err \<noteq> None then Inr (store im m2 w2)
                  else (let (stopCh', w3) = make_chan w2
                        in Inr (store im m2 (go (InformerRun i stopCh') w3)))))"

definition AddPodListener ::
    "ptr \<Rightarrow> callback \<Rightarrow> callback \<Rightarrow> callback \<Rightarrow> bool \<Rightarrow> world \<Rightarrow> fault + world" where
  "AddPodListener im add update remove refused w =
     (case managers w im of
        None \<Rightarrow> Inl NilDereference
      | Some m \<Rightarrow>
          (case (case podInformer m of
                   None \<Rightarrow>
                     (case InformerFor (informerFactory m) Pods w of
                        Inl e \<Rightarrow> Inl e
                      | Inr (i, w') \<Rightarrow> Inr (i, m\<lparr>podInformer := Some i\<rparr>, w'))
                 | Some i \<Rightarrow> Inr (i, m, w)) of
             Inl e \<Rightarrow> Inl e
           | Inr (i, m1, w1) \<Rightarrow>
               (let m2 = m1\<lparr>podSynced := Some (HasSynced i)\<rparr> in
                case AddEventHandler i
                       \<lparr>AddFunc = add, UpdateFunc = update, DeleteFunc = remove\<rparr> refused w1 of
                  Inl e \<Rightarrow> Inl e
                | Inr (err, w2) \<Rightarrow>
                    if err \<noteq> None then Inr (store im m2 w2) else Inr (store im m2 w2))))"

definition AddVolumeAttachmentListener ::
    "ptr \<Rightarrow> callback \<Rightarrow> callback \<Rightarrow> callback \<Rightarrow> bool \<Rightarrow> world \<Rightarrow> fault + world" where
  "AddVolumeAttachmentListener im add update remove refused w =
     (case managers w im of
        None \<Rightarrow> Inl NilDereference
      | Some m \<Rightarrow>
          (case (case volumeAttachmentInformer m of
                   None \<Rightarrow>
                     (case InformerFor (informerFactory m) VolumeAttachments w of
                        Inl e \<Rightarrow> Inl e
                      | Inr (i, w') \<Rightarrow> Inr (i, m\<lparr>volumeAttachmentInformer := Some i\<rparr>, w'))
                 | Some i \<Rightarrow> Inr (i, m, w)) of
             Inl e \<Rightarrow> Inl e
           | Inr (i, m1, w1) \<Rightarrow>
               (case AddEventHandler i
                       \<lparr>AddFunc = add, UpdateFunc = update, DeleteFunc = remove\<rparr> refused w1 of
                  Inl e \<Rightarrow> Inl e
                | Inr (err, w2) \<Rightarrow>
                    if err \<noteq> None then Inr (store im m1 w2) else Inr (store im m1 w2))))"

subsection \<open>The listers\<close>

definition GetPVLister :: "ptr \<Rightarrow> world \<Rightarrow> fault + (lister \<times> world)" where
  "GetPVLister im w =
     (case managers w im of
        None \<Rightarrow> Inl NilDereference
      | Some m \<Rightarrow> ListerFor (informerFactory m) PersistentVolumes w)"

definition GetPVCLister :: "ptr \<Rightarrow> world \<Rightarrow> fault + (lister \<times> world)" where
  "GetPVCLister im w =
     (case managers w im of
        None \<Rightarrow> Inl NilDereference
      | Some m \<Rightarrow> ListerFor (informerFactory m) PersistentVolumeClaims w)"

definition GetConfigMapLister :: "ptr \<Rightarrow> world \<Rightarrow> fault + (lister \<times> world)" where
  "GetConfigMapLister im w =
     (case managers w im of
        None \<Rightarrow> Inl NilDereference
      | Some m \<Rightarrow> ListerFor (informerFactory m) ConfigMaps w)"

definition GetPodLister :: "ptr \<Rightarrow> world \<Rightarrow> fault + (lister \<times> world)" where
  "GetPodLister im w =
     (case managers w im of
        None \<Rightarrow> Inl NilDereference
      | Some m \<Rightarrow> ListerFor (informerFactory m) Pods w)"

subsection \<open>Listen\<close>

text \<open>
  \<open>cache.WaitForCacheSync(stopCh, synced...)\<close> belongs to client-go: it polls the
  predicates and answers true once all of them report true, false when the stop channel
  is closed first, and does not answer while neither happens. The model takes its answer
  from the environment, as a function \<open>wait\<close> of the arguments of the call: \<open>Some True\<close>,
  \<open>Some False\<close>, or \<open>None\<close> for a wait that never ends.

  The result of \<open>Listen\<close> is the named result \<open>stopCh\<close>, whose zero value is the nil
  channel; the bare \<open>return\<close> yields it.
\<close>

definition Listen ::
    "ptr \<Rightarrow> (chan option \<Rightarrow> InformerSynced list \<Rightarrow> bool option) \<Rightarrow> world \<Rightarrow>
     fault + (chan option \<times> world)" where
  "Listen im wait w =
     (case managers w im of
        None \<Rightarrow> Inl NilDereference
      | Some m \<Rightarrow>
          (case factories w (informerFactory m) of
             None \<Rightarrow> Inl NilDereference
           | Some F \<Rightarrow>
               (let w1 = go (FactoryStart (informerFactory m) (stopCh m)) w in
                case (pvSynced m, pvcSynced m, podSynced m, configMapSynced m) of
                  (Some pv, Some pvc, Some pod, Some cm) \<Rightarrow>
                    (case wait (stopCh m) [pv, pvc, pod, cm] of
                       None \<Rightarrow> Inl NeverReturns
                     | Some synced \<Rightarrow> if \<not> synced then Inr (None, w1) else Inr (stopCh m, w1))
                | _ \<Rightarrow> Inr (stopCh m, w1))))"

subsection \<open>A client of the package\<close>

text \<open>
  What a program can do with the package is a sequence of calls of its exported
  functions. \<open>run\<close> performs such a sequence from a given world and stops at the first
  call that does not return. The worlds the package can be in are the ones a sequence of
  calls reaches from \<open>initial_world\<close>.
\<close>

datatype call =
    CallNewInformer ctx clientset bool
  | CallAddNodeListener ptr callback callback callback bool
  | CallAddCSINodeListener ptr callback callback callback bool
  | CallAddPVCListener ptr callback callback callback bool
  | CallAddPVListener ptr callback callback callback bool
  | CallAddNamespaceListener ptr callback callback callback bool
  | CallAddConfigMapListener ptr ctx clientset string callback callback callback bool
  | CallAddPodListener ptr callback callback callback bool
  | CallAddVolumeAttachmentListener ptr callback callback callback bool
  | CallGetPVLister ptr
  | CallGetPVCLister ptr
  | CallGetConfigMapLister ptr
  | CallGetPodLister ptr
  | CallListen ptr "chan option \<Rightarrow> InformerSynced list \<Rightarrow> bool option"

fun world_of :: "fault + ('a \<times> world) \<Rightarrow> fault + world" where
  "world_of (Inl e) = Inl e"
| "world_of (Inr (x, w)) = Inr w"

fun step :: "call \<Rightarrow> world \<Rightarrow> fault + world" where
  "step (CallNewInformer c clnt inClusterClnt) w = world_of (NewInformer c clnt inClusterClnt w)"
| "step (CallAddNodeListener im a u r refused) w = AddNodeListener im a u r refused w"
| "step (CallAddCSINodeListener im a u r refused) w = AddCSINodeListener im a u r refused w"
| "step (CallAddPVCListener im a u r refused) w = AddPVCListener im a u r refused w"
| "step (CallAddPVListener im a u r refused) w = AddPVListener im a u r refused w"
| "step (CallAddNamespaceListener im a u r refused) w = AddNamespaceListener im a u r refused w"
| "step (CallAddConfigMapListener im c clnt ns a u r refused) w =
     AddConfigMapListener im c clnt ns a u r refused w"
| "step (CallAddPodListener im a u r refused) w = AddPodListener im a u r refused w"
| "step (CallAddVolumeAttachmentListener im a u r refused) w =
     AddVolumeAttachmentListener im a u r refused w"
| "step (CallGetPVLister im) w = world_of (GetPVLister im w)"
| "step (CallGetPVCLister im) w = world_of (GetPVCLister im w)"
| "step (CallGetConfigMapLister im) w = world_of (GetConfigMapLister im w)"
| "step (CallGetPodLister im) w = world_of (GetPodLister im w)"
| "step (CallListen im wait) w = world_of (Listen im wait w)"

fun run :: "call list \<Rightarrow> world \<Rightarrow> fault + world" where
  "run [] w = Inr w"
| "run (c # cs) w = (case step c w of Inl e \<Rightarrow> Inl e | Inr w' \<Rightarrow> run cs w')"

subsection \<open>Observations and invariants\<close>

text \<open>
  What can be seen of the world once a sequence of calls has returned; nothing can be
  seen if it did not return.
\<close>

definition manager_after :: "fault + world \<Rightarrow> ptr \<Rightarrow> InformerManager option" where
  "manager_after r p = (case r of Inl e \<Rightarrow> None | Inr w \<Rightarrow> managers w p)"

definition informer_after :: "fault + world \<Rightarrow> ptr \<Rightarrow> SharedInformer option" where
  "informer_after r i = (case r of Inl e \<Rightarrow> None | Inr w \<Rightarrow> informers w i)"

definition factory_after :: "fault + world \<Rightarrow> ptr \<Rightarrow> SharedInformerFactory option" where
  "factory_after r f = (case r of Inl e \<Rightarrow> None | Inr w \<Rightarrow> factories w f)"

definition goroutines_after :: "fault + world \<Rightarrow> goroutine list option" where
  "goroutines_after r = (case r of Inl e \<Rightarrow> None | Inr w \<Rightarrow> Some (goroutines w))"

definition logged_after :: "fault + world \<Rightarrow> (ctx \<times> string) list option" where
  "logged_after r = (case r of Inl e \<Rightarrow> None | Inr w \<Rightarrow> Some (logged w))"

text \<open>A call that yields a value, made after a sequence of calls has returned.\<close>

definition then_call ::
    "fault + world \<Rightarrow> (world \<Rightarrow> fault + ('a \<times> world)) \<Rightarrow> fault + ('a \<times> world)" where
  "then_call r f = (case r of Inl e \<Rightarrow> Inl e | Inr w \<Rightarrow> f w)"

definition value_of :: "fault + ('a \<times> world) \<Rightarrow> 'a option" where
  "value_of r = (case r of Inl e \<Rightarrow> None | Inr (x, w) \<Rightarrow> Some x)"

text \<open>The informer slots that the source fills from the factory.\<close>

definition factory_slots :: "InformerManager \<Rightarrow> ptr option list" where
  "factory_slots m =
     [nodeInformer m, pvInformer m, pvcInformer m, namespaceInformer m, podInformer m,
      volumeAttachmentInformer m]"

text \<open>The five synced predicates of a manager.\<close>

definition synced_predicates :: "InformerManager \<Rightarrow> InformerSynced option list" where
  "synced_predicates m =
     [pvSynced m, pvcSynced m, podSynced m, configMapSynced m, namespaceSynced m]"

text \<open>How the informer at an address was constructed, and the resync period of a factory.\<close>

definition origin_of :: "world \<Rightarrow> ptr \<Rightarrow> origin option" where
  "origin_of w i = map_option madeBy (informers w i)"

definition resync_of :: "world \<Rightarrow> ptr \<Rightarrow> Duration option" where
  "resync_of w f = map_option defaultResync (factories w f)"

text \<open>The allocators are ahead of every object and channel in use.\<close>

definition fresh :: "world \<Rightarrow> bool" where
  "fresh w \<longleftrightarrow>
     (\<forall>p. managers w p \<noteq> None \<longrightarrow> p < nextPtr w) \<and>
     (\<forall>p. factories w p \<noteq> None \<longrightarrow> p < nextPtr w) \<and>
     (\<forall>p. informers w p \<noteq> None \<longrightarrow> p < nextPtr w) \<and>
     (\<forall>p m c. managers w p = Some m \<longrightarrow> stopCh m = Some c \<longrightarrow> c < nextChan w)"

text \<open>
  A manager in good order: its factory exists and never resyncs, it has a stop channel,
  its config-map slot (if filled) holds a filtered informer with the config-map resync
  period, and each of its other slots (if filled) holds an informer of its own factory.
\<close>

definition manager_ok :: "world \<Rightarrow> InformerManager \<Rightarrow> bool" where
  "manager_ok w m \<longleftrightarrow>
     resync_of w (informerFactory m) = Some 0 \<and>
     stopCh m \<noteq> None \<and>
     (\<forall>i. configMapInformer m = Some i \<longrightarrow>
        (\<exists>c ns. origin_of w i = Some (Filtered c ns resyncPeriodConfigMapInformer))) \<and>
     (\<forall>i. Some i \<in> set (factory_slots m) \<longrightarrow>
        origin_of w i = Some (FromFactory (informerFactory m)))"

text \<open>Every manager is in good order, and what a factory lists it has made.\<close>

definition sane :: "world \<Rightarrow> bool" where
  "sane w \<longleftrightarrow>
     (\<forall>p m. managers w p = Some m \<longrightarrow> manager_ok w m) \<and>
     (\<forall>f F k i. factories w f = Some F \<longrightarrow> factoryInformers F k = Some i \<longrightarrow>
        origin_of w i = Some (FromFactory f))"

text \<open>
  The singleton variables point at managers; at most one of them is set, and one is set
  exactly when the signal handler has been set up.
\<close>

definition singletons :: "world \<Rightarrow> bool" where
  "singletons w \<longleftrightarrow>
     (\<forall>p. inClusterInformerManagerInstance w = Some p \<longrightarrow> managers w p \<noteq> None) \<and>
     (\<forall>p. supervisorInformerManagerInstance w = Some p \<longrightarrow> managers w p \<noteq> None) \<and>
     (inClusterInformerManagerInstance w = None \<or> supervisorInformerManagerInstance w = None) \<and>
     (onlyOneSignalHandlerClosed w \<longleftrightarrow>
        inClusterInformerManagerInstance w \<noteq> None \<or>
        supervisorInformerManagerInstance w \<noteq> None)"

definition invariant :: "world \<Rightarrow> bool" where
  "invariant w \<longleftrightarrow> fresh w \<and> sane w \<and> singletons w"

text \<open>What a call other than \<open>NewInformer\<close> leaves alone.\<close>

definition frame :: "world \<Rightarrow> world \<Rightarrow> bool" where
  "frame w w' \<longleftrightarrow>
     inClusterInformerManagerInstance w' = inClusterInformerManagerInstance w \<and>
     supervisorInformerManagerInstance w' = supervisorInformerManagerInstance w \<and>
     onlyOneSignalHandlerClosed w' = onlyOneSignalHandlerClosed w \<and>
     logged w' = logged w \<and>
     (\<forall>p. (managers w' p = None) = (managers w p = None)) \<and>
     (\<forall>p m. managers w p = Some m \<longrightarrow>
        (\<exists>m'. managers w' p = Some m' \<and> client m' = client m \<and> stopCh m' = stopCh m \<and>
              informerFactory m' = informerFactory m))"


text \<open>What the collaborators never touch.\<close>

definition same :: "world \<Rightarrow> world \<Rightarrow> bool" where
  "same w w' \<longleftrightarrow>
     managers w' = managers w \<and>
     inClusterInformerManagerInstance w' = inClusterInformerManagerInstance w \<and>
     supervisorInformerManagerInstance w' = supervisorInformerManagerInstance w \<and>
     onlyOneSignalHandlerClosed w' = onlyOneSignalHandlerClosed w \<and>
     logged w' = logged w \<and> goroutines w' = goroutines w \<and> nextChan w' = nextChan w"

text \<open>
  The seven registrations that go through the factory have one shape: they differ in the
  kind they ask the factory for, in the slot they read, and in the fields \<open>upd\<close> they
  write. \<open>register\<close> is that shape; it serves the proofs, where each registration is
  shown to be an instance of it.
\<close>

definition register ::
    "kind \<Rightarrow> (InformerManager \<Rightarrow> ptr option) \<Rightarrow> (ptr \<Rightarrow> InformerManager \<Rightarrow> InformerManager) \<Rightarrow>
     ptr \<Rightarrow> ResourceEventHandlerFuncs \<Rightarrow> bool \<Rightarrow> world \<Rightarrow> fault + world" where
  "register k slot upd im h refused w =
     (case managers w im of
        None \<Rightarrow> Inl NilDereference
      | Some m \<Rightarrow>
          (case (case slot m of
                   None \<Rightarrow> InformerFor (informerFactory m) k w
                 | Some i \<Rightarrow> Inr (i, w)) of
             Inl e \<Rightarrow> Inl e
           | Inr (i, w1) \<Rightarrow>
               (case AddEventHandler i h refused w1 of
                  Inl e \<Rightarrow> Inl e
                | Inr (err, w2) \<Rightarrow> Inr (store im (upd i m) w2))))"

text \<open>What \<open>upd\<close> may do to a manager: fill factory slots with the informer, nothing else that matters.\<close>

definition modest ::
    "(InformerManager \<Rightarrow> ptr option) \<Rightarrow> (ptr \<Rightarrow> InformerManager \<Rightarrow> InformerManager) \<Rightarrow> bool" where
  "modest slot upd \<longleftrightarrow>
     (\<forall>i m. client (upd i m) = client m \<and> stopCh (upd i m) = stopCh m \<and>
        informerFactory (upd i m) = informerFactory m \<and>
        configMapInformer (upd i m) = configMapInformer m \<and>
        set (factory_slots (upd i m)) \<subseteq> insert (Some i) (set (factory_slots m)) \<and>
        slot m \<in> set (factory_slots m))"

text \<open>
  What it is for a registration on manager \<open>m\<close> at \<open>im\<close>, with result \<open>r\<close>, to have
  taken its watcher from the manager's factory: the call has returned; the slot holds an
  informer that the manager's factory has made, and that factory has resync period zero;
  if the slot was empty before, the informer is the one the factory lists for the kind
  \<open>k\<close>; if it was filled before, the informer is the one it held.
\<close>

definition filled_from_factory ::
    "kind \<Rightarrow> (InformerManager \<Rightarrow> ptr option) \<Rightarrow> ptr \<Rightarrow> InformerManager \<Rightarrow> fault + world \<Rightarrow> bool" where
  "filled_from_factory k slot im m r \<longleftrightarrow>
     (\<exists>i w' m'. r = Inr w' \<and> managers w' im = Some m' \<and> slot m' = Some i \<and>
        informerFactory m' = informerFactory m \<and>
        origin_of w' i = Some (FromFactory (informerFactory m)) \<and>
        resync_of w' (informerFactory m) = Some 0 \<and>
        (slot m = None \<longrightarrow>
           (\<exists>F. factories w' (informerFactory m) = Some F \<and> factoryInformers F k = Some i)) \<and>
        (\<forall>j. slot m = Some j \<longrightarrow> i = j))"

text \<open>The singleton variable that \<open>NewInformer\<close> reads and writes for a flag.\<close>

definition global :: "bool \<Rightarrow> world \<Rightarrow> ptr option" where
  "global inClusterClnt w =
     (if inClusterClnt then inClusterInformerManagerInstance w
      else supervisorInformerManagerInstance w)"

text \<open>What no call ever undoes: a singleton once set, and who a manager's client, stop
  channel and factory are.\<close>

definition keeps :: "world \<Rightarrow> world \<Rightarrow> bool" where
  "keeps w w' \<longleftrightarrow>
     (\<forall>b p. global b w = Some p \<longrightarrow> global b w' = Some p) \<and>
     (\<forall>p m. managers w p = Some m \<longrightarrow>
        (\<exists>m'. managers w' p = Some m' \<and> client m' = client m \<and> stopCh m' = stopCh m \<and>
              informerFactory m' = informerFactory m))"

section \<open>Proofs\<close>

subsection \<open>The registrations are instances of one shape\<close>

lemmas api_splits = option.splits sum.splits if_splits prod.splits

lemma upd_same_slot:
  "nodeInformer m = Some i \<Longrightarrow> m\<lparr>nodeInformer := Some i\<rparr> = m"
  "pvInformer m = Some i \<Longrightarrow> m\<lparr>pvInformer := Some i\<rparr> = m"
  "pvcInformer m = Some i \<Longrightarrow> m\<lparr>pvcInformer := Some i\<rparr> = m"
  "namespaceInformer m = Some i \<Longrightarrow> m\<lparr>namespaceInformer := Some i\<rparr> = m"
  "podInformer m = Some i \<Longrightarrow> m\<lparr>podInformer := Some i\<rparr> = m"
  "volumeAttachmentInformer m = Some i \<Longrightarrow> m\<lparr>volumeAttachmentInformer := Some i\<rparr> = m"
  by (cases m; simp)+

lemma AddNodeListener_register:
  "AddNodeListener im a u r x w =
     register Nodes nodeInformer (\<lambda>i m. m\<lparr>nodeInformer := Some i\<rparr>) im
       \<lparr>AddFunc = a, UpdateFunc = u, DeleteFunc = r\<rparr> x w"
  by (simp add: AddNodeListener_def register_def upd_same_slot split: api_splits)

lemma AddCSINodeListener_register:
  "AddCSINodeListener im a u r x w =
     register CSINodes nodeInformer (\<lambda>i m. m\<lparr>nodeInformer := Some i\<rparr>) im
       \<lparr>AddFunc = a, UpdateFunc = u, DeleteFunc = r\<rparr> x w"
  by (simp add: AddCSINodeListener_def register_def upd_same_slot split: api_splits)

lemma AddPVCListener_register:
  "AddPVCListener im a u r x w =
     register PersistentVolumeClaims pvcInformer
       (\<lambda>i m. m\<lparr>pvcInformer := Some i, pvcSynced := Some (HasSynced i)\<rparr>) im
       \<lparr>AddFunc = a, UpdateFunc = u, DeleteFunc = r\<rparr> x w"
  by (simp add: AddPVCListener_def register_def upd_same_slot split: api_splits)

lemma AddPVListener_register:
  "AddPVListener im a u r x w =
     register PersistentVolumes pvInformer
       (\<lambda>i m. m\<lparr>pvInformer := Some i, pvSynced := Some (HasSynced i)\<rparr>) im
       \<lparr>AddFunc = a, UpdateFunc = u, DeleteFunc = r\<rparr> x w"
  by (simp add: AddPVListener_def register_def upd_same_slot split: api_splits)

lemma AddNamespaceListener_register:
  "AddNamespaceListener im a u r x w =
     register Namespaces namespaceInformer
       (\<lambda>i m. m\<lparr>namespaceInformer := Some i, namespaceSynced := Some (HasSynced i)\<rparr>) im
       \<lparr>AddFunc = a, UpdateFunc = u, DeleteFunc = r\<rparr> x w"
  by (simp add: AddNamespaceListener_def register_def upd_same_slot split: api_splits)

lemma AddPodListener_register:
  "AddPodListener im a u r x w =
     register Pods podInformer
       (\<lambda>i m. m\<lparr>podInformer := Some i, podSynced := Some (HasSynced i)\<rparr>) im
       \<lparr>AddFunc = a, UpdateFunc = u, DeleteFunc = r\<rparr> x w"
  by (simp add: AddPodListener_def register_def upd_same_slot split: api_splits)

lemma AddVolumeAttachmentListener_register:
  "AddVolumeAttachmentListener im a u r x w =
     register VolumeAttachments volumeAttachmentInformer
       (\<lambda>i m. m\<lparr>volumeAttachmentInformer := Some i\<rparr>) im
       \<lparr>AddFunc = a, UpdateFunc = u, DeleteFunc = r\<rparr> x w"
  by (simp add: AddVolumeAttachmentListener_def register_def upd_same_slot split: api_splits)

lemma modest_instances:
  "modest nodeInformer (\<lambda>i m. m\<lparr>nodeInformer := Some i\<rparr>)"
  "modest pvcInformer (\<lambda>i m. m\<lparr>pvcInformer := Some i, pvcSynced := Some (HasSynced i)\<rparr>)"
  "modest pvInformer (\<lambda>i m. m\<lparr>pvInformer := Some i, pvSynced := Some (HasSynced i)\<rparr>)"
  "modest namespaceInformer (\<lambda>i m. m\<lparr>namespaceInformer := Some i, namespaceSynced := Some (HasSynced i)\<rparr>)"
  "modest podInformer (\<lambda>i m. m\<lparr>podInformer := Some i, podSynced := Some (HasSynced i)\<rparr>)"
  "modest volumeAttachmentInformer (\<lambda>i m. m\<lparr>volumeAttachmentInformer := Some i\<rparr>)"
  by (auto simp: modest_def factory_slots_def)

subsection \<open>The collaborators keep the invariants\<close>


lemma manager_ok_mono:
  assumes "manager_ok w m"
    and "\<And>j x. origin_of w j = Some x \<Longrightarrow> origin_of w' j = Some x"
    and "\<And>f d. resync_of w f = Some d \<Longrightarrow> resync_of w' f = Some d"
  shows "manager_ok w' m"
  using assms unfolding manager_ok_def by blast

lemma InformerFor_cases:
  assumes "InformerFor f k w = Inr (i, w')"
  obtains (old) F where "factories w f = Some F" "factoryInformers F k = Some i" "w' = w"
  | (new) F where "factories w f = Some F" "factoryInformers F k = None" "i = nextPtr w"
      "w' = w\<lparr>informers := (informers w)(nextPtr w \<mapsto>
                  \<lparr>kindOf = k, madeBy = FromFactory f, handlers = []\<rparr>),
              factories := (factories w)(f \<mapsto>
                  F\<lparr>factoryInformers := (factoryInformers F)(k \<mapsto> nextPtr w)\<rparr>),
              nextPtr := Suc (nextPtr w)\<rparr>"
  using assms unfolding InformerFor_def by (auto split: api_splits)

lemma InformerFor_same: "InformerFor f k w = Inr (i, w') \<Longrightarrow> same w w'"
  by (erule InformerFor_cases) (simp_all add: same_def)

lemma InformerFor_fresh:
  assumes "InformerFor f k w = Inr (i, w')" and "fresh w"
  shows "fresh w'"
  using assms by (elim InformerFor_cases) (auto simp: fresh_def less_Suc_eq)

lemma InformerFor_origin:
  assumes "InformerFor f k w = Inr (i, w')" and "fresh w" and "sane w"
  shows "origin_of w' i = Some (FromFactory f)"
    and "\<And>j x. origin_of w j = Some x \<Longrightarrow> origin_of w' j = Some x"
    and "resync_of w' = resync_of w"
  using assms
  by (elim InformerFor_cases; auto simp: fresh_def sane_def origin_of_def resync_of_def fun_eq_iff)+

lemma listed_allocated:
  assumes "fresh w" and "sane w" and "factories w g = Some G" and "factoryInformers G k = Some j"
  shows "j < nextPtr w"
proof -
  have "origin_of w j = Some (FromFactory g)"
    using assms(2-4) by (auto simp: sane_def)
  then have "informers w j \<noteq> None"
    by (auto simp: origin_of_def)
  then show ?thesis
    using assms(1) by (simp add: fresh_def)
qed

lemma InformerFor_sane:
  assumes "InformerFor f k w = Inr (i, w')" and "fresh w" and "sane w"
  shows "sane w'"
proof -
  have m: "managers w' = managers w"
    using InformerFor_same [OF assms(1)] by (simp add: same_def)
  have ok: "manager_ok w' m" if "managers w p = Some m" for p m
    using that assms(3) InformerFor_origin(2,3) [OF assms]
    by (intro manager_ok_mono [of w m w']) (auto simp: sane_def)
  have fac: "origin_of w' j = Some (FromFactory g)"
    if "factories w' g = Some G" "factoryInformers G k' = Some j" for g G k' j
  proof (rule InformerFor_cases [OF assms(1)])
    fix F assume "factories w f = Some F" "factoryInformers F k = Some i" "w' = w"
    then show ?thesis using that assms(3) by (auto simp: sane_def)
  next
    fix F assume F: "factories w f = Some F" "factoryInformers F k = None" "i = nextPtr w"
      and w': "w' = w\<lparr>informers := (informers w)(nextPtr w \<mapsto>
                  \<lparr>kindOf = k, madeBy = FromFactory f, handlers = []\<rparr>),
              factories := (factories w)(f \<mapsto>
                  F\<lparr>factoryInformers := (factoryInformers F)(k \<mapsto> nextPtr w)\<rparr>),
              nextPtr := Suc (nextPtr w)\<rparr>"
    show ?thesis
    proof (cases "j = nextPtr w")
      case True
      have "g = f"
      proof (rule ccontr)
        assume "g \<noteq> f"
        then have "factories w g = Some G" using that(1) w' by simp
        from listed_allocated [OF assms(2,3) this that(2)] True show False by simp
      qed
      then show ?thesis using True w' by (simp add: origin_of_def)
    next
      case False
      then have old: "\<exists>G0. factories w g = Some G0 \<and> factoryInformers G0 k' = Some j"
        using that w' F by (auto split: if_splits)
      then have "origin_of w j = Some (FromFactory g)"
        using assms(3) by (auto simp: sane_def)
      then show ?thesis using False w' by (simp add: origin_of_def)
    qed
  qed
  show ?thesis
    unfolding sane_def using m ok fac by auto
qed

lemma AddEventHandler_cases:
  assumes "AddEventHandler i h x w = Inr (err, w')"
  obtains (refused) I where "informers w i = Some I" "x" "err = Some HandlerRefused" "w' = w"
  | (taken) I where "informers w i = Some I" "\<not> x" "err = None"
      "w' = w\<lparr>informers := (informers w)(i \<mapsto> I\<lparr>handlers := handlers I @ [h]\<rparr>)\<rparr>"
  using assms unfolding AddEventHandler_def by (auto split: api_splits)

lemma AddEventHandler_same: "AddEventHandler i h x w = Inr (err, w') \<Longrightarrow> same w w'"
  by (erule AddEventHandler_cases) (simp_all add: same_def)

lemma AddEventHandler_keeps:
  assumes "AddEventHandler i h x w = Inr (err, w')"
  shows "origin_of w' = origin_of w" and "resync_of w' = resync_of w"
    and "factories w' = factories w" and "nextPtr w' = nextPtr w"
    and "(informers w' j = None) = (informers w j = None)"
  using assms
  by (elim AddEventHandler_cases; auto simp: origin_of_def resync_of_def fun_eq_iff)+

lemma AddEventHandler_fresh:
  assumes "AddEventHandler i h x w = Inr (err, w')" and "fresh w"
  shows "fresh w'"
  using assms(2) AddEventHandler_keeps [OF assms(1)] AddEventHandler_same [OF assms(1)]
  by (simp add: fresh_def same_def)

lemma AddEventHandler_sane:
  assumes "AddEventHandler i h x w = Inr (err, w')" and "sane w"
  shows "sane w'"
  using assms(2) AddEventHandler_keeps [OF assms(1)] AddEventHandler_same [OF assms(1)]
  by (simp add: sane_def same_def manager_ok_def)


lemma store_keeps:
  "origin_of (store im m w) = origin_of w" "resync_of (store im m w) = resync_of w"
  "factories (store im m w) = factories w" "informers (store im m w) = informers w"
  "nextPtr (store im m w) = nextPtr w" "nextChan (store im m w) = nextChan w"
  "goroutines (store im m w) = goroutines w" "logged (store im m w) = logged w"
  "inClusterInformerManagerInstance (store im m w) = inClusterInformerManagerInstance w"
  "supervisorInformerManagerInstance (store im m w) = supervisorInformerManagerInstance w"
  "onlyOneSignalHandlerClosed (store im m w) = onlyOneSignalHandlerClosed w"
  "managers (store im m w) = (managers w)(im \<mapsto> m)"
  by (simp_all add: store_def origin_of_def resync_of_def fun_eq_iff)

lemma manager_ok_store: "manager_ok (store im m' w) m = manager_ok w m"
  by (simp add: manager_ok_def store_keeps)

lemma store_sane:
  assumes "sane w" and "manager_ok w m"
  shows "sane (store im m w)"
  using assms by (auto simp: sane_def store_keeps manager_ok_store)

lemma store_fresh:
  assumes "fresh w" and "managers w im = Some m0" and "stopCh m = stopCh m0"
  shows "fresh (store im m w)"
  using assms by (auto simp: fresh_def store_keeps)

lemma register_cases:
  assumes "register k slot upd im h x w = Inr w'"
  obtains m i w1 err w2 where "managers w im = Some m"
    and "slot m = None \<and> InformerFor (informerFactory m) k w = Inr (i, w1) \<or>
         slot m = Some i \<and> w1 = w"
    and "AddEventHandler i h x w1 = Inr (err, w2)"
    and "w' = store im (upd i m) w2"
  using assms unfolding register_def by (auto split: api_splits)

lemma same_trans: "same w w1 \<Longrightarrow> same w1 w2 \<Longrightarrow> same w w2"
  by (simp add: same_def)

lemma same_refl: "same w w"
  by (simp add: same_def)

lemma register_effect:
  assumes "register k slot upd im h x w = Inr w'" and "modest slot upd"
  obtains m i w2 where "managers w im = Some m" and "same w w2"
    and "w' = store im (upd i m) w2"
proof (rule register_cases [OF assms(1)])
  fix m i w1 err w2
  assume m: "managers w im = Some m"
    and i: "slot m = None \<and> InformerFor (informerFactory m) k w = Inr (i, w1) \<or>
            slot m = Some i \<and> w1 = w"
    and h: "AddEventHandler i h x w1 = Inr (err, w2)"
    and w': "w' = store im (upd i m) w2"
  have "same w w1"
    using i InformerFor_same same_refl by blast
  then have "same w w2"
    using AddEventHandler_same [OF h] same_trans by blast
  show thesis by (rule that [OF m \<open>same w w2\<close> w'])
qed

lemma register_frame:
  assumes "register k slot upd im h x w = Inr w'" and "modest slot upd"
  shows "frame w w'" and "goroutines w' = goroutines w"
proof -
  obtain m i w2 where m: "managers w im = Some m" and s: "same w w2"
    and w': "w' = store im (upd i m) w2"
    using assms by (rule register_effect)
  have u: "client (upd i m) = client m" "stopCh (upd i m) = stopCh m"
    "informerFactory (upd i m) = informerFactory m"
    using assms(2) by (simp_all add: modest_def)
  show "frame w w'"
    using m s u unfolding w' frame_def same_def by (simp add: store_keeps)
  show "goroutines w' = goroutines w"
    using s unfolding w' same_def by (simp add: store_keeps)
qed

lemma register_invariant:
  assumes r: "register k slot upd im h x w = Inr w'" and u: "modest slot upd"
    and f: "fresh w" and s: "sane w"
  shows "fresh w' \<and> sane w'"
proof (rule register_cases [OF r])
  fix m i w1 err w2
  assume m: "managers w im = Some m"
    and i: "slot m = None \<and> InformerFor (informerFactory m) k w = Inr (i, w1) \<or>
            slot m = Some i \<and> w1 = w"
    and h: "AddEventHandler i h x w1 = Inr (err, w2)"
    and w': "w' = store im (upd i m) w2"
  have ok: "manager_ok w m"
    using s m by (auto simp: sane_def)
  have slot: "slot m \<in> set (factory_slots m)"
    using u by (simp add: modest_def)
  have w1: "fresh w1 \<and> sane w1 \<and> same w w1 \<and> manager_ok w1 m \<and>
            origin_of w1 i = Some (FromFactory (informerFactory m))"
  proof (rule disjE [OF i])
    assume a: "slot m = None \<and> InformerFor (informerFactory m) k w = Inr (i, w1)"
    then have c: "InformerFor (informerFactory m) k w = Inr (i, w1)" by simp
    have "manager_ok w1 m"
      using ok InformerFor_origin(2,3) [OF c f s] by (intro manager_ok_mono [of w m w1]) auto
    then show ?thesis
      using InformerFor_fresh [OF c f] InformerFor_sane [OF c f s] InformerFor_same [OF c]
        InformerFor_origin(1) [OF c f s] by simp
  next
    assume a: "slot m = Some i \<and> w1 = w"
    then have "Some i \<in> set (factory_slots m)" using slot by simp
    then have "origin_of w i = Some (FromFactory (informerFactory m))"
      using ok by (simp add: manager_ok_def)
    then show ?thesis using a f s ok by (simp add: same_refl)
  qed
  have k2: "origin_of w2 = origin_of w1" "resync_of w2 = resync_of w1"
    using AddEventHandler_keeps [OF h] by simp_all
  have ud: "informerFactory (upd i m) = informerFactory m" "stopCh (upd i m) = stopCh m"
    "configMapInformer (upd i m) = configMapInformer m"
    "set (factory_slots (upd i m)) \<subseteq> insert (Some i) (set (factory_slots m))"
    using u by (simp_all add: modest_def)
  have "origin_of w1 j = Some (FromFactory (informerFactory m))"
    if "Some j \<in> set (factory_slots (upd i m))" for j
  proof -
    from that ud(4) have "j = i \<or> Some j \<in> set (factory_slots m)" by auto
    then show ?thesis using w1 by (auto simp: manager_ok_def)
  qed
  then have "manager_ok w1 (upd i m)"
    using w1 ud(1-3) by (simp add: manager_ok_def)
  then have ok2: "manager_ok w2 (upd i m)"
    using k2 by (simp add: manager_ok_def)
  have s2: "sane w2" "fresh w2" "same w w2"
    using AddEventHandler_sane [OF h] AddEventHandler_fresh [OF h] w1 apply simp_all
    using AddEventHandler_same [OF h] w1 same_trans by blast
  have m2: "managers w2 im = Some m"
    using s2(3) m by (simp add: same_def)
  show ?thesis
    unfolding w' using store_sane [OF s2(1) ok2] store_fresh [OF s2(2) m2 ud(2)] by simp
qed

lemma frame_singletons: "frame w w' \<Longrightarrow> singletons w \<Longrightarrow> singletons w'"
  unfolding frame_def singletons_def by simp

lemma InformerFor_total:
  assumes "factories w f \<noteq> None"
  shows "\<exists>i w'. InformerFor f k w = Inr (i, w')"
  using assms unfolding InformerFor_def by (auto split: api_splits)

subsection \<open>The config-map registration\<close>

lemma NewFiltered_same:
  "NewFilteredConfigMapInformer c ns d w = (i, w') \<Longrightarrow> same w w'"
  by (auto simp: NewFilteredConfigMapInformer_def same_def)

lemma NewFiltered_fresh:
  "NewFilteredConfigMapInformer c ns d w = (i, w') \<Longrightarrow> fresh w \<Longrightarrow> fresh w'"
  by (auto simp: NewFilteredConfigMapInformer_def fresh_def less_Suc_eq)

lemma NewFiltered_origin:
  assumes "NewFilteredConfigMapInformer c ns d w = (i, w')" and "fresh w"
  shows "origin_of w' i = Some (Filtered c ns d)"
    and "\<And>j x. origin_of w j = Some x \<Longrightarrow> origin_of w' j = Some x"
    and "resync_of w' = resync_of w" and "factories w' = factories w"
    and "i = nextPtr w"
  using assms
  by (auto simp: NewFilteredConfigMapInformer_def fresh_def origin_of_def resync_of_def fun_eq_iff)

lemma NewFiltered_sane:
  assumes n: "NewFilteredConfigMapInformer c ns d w = (i, w')" and f: "fresh w" and s: "sane w"
  shows "sane w'"
proof -
  have m: "managers w' = managers w"
    using NewFiltered_same [OF n] by (simp add: same_def)
  have ok: "manager_ok w' m" if "managers w p = Some m" for p m
    using that s NewFiltered_origin(2,3) [OF n f]
    by (intro manager_ok_mono [of w m w']) (auto simp: sane_def)
  show ?thesis
    unfolding sane_def using m ok s NewFiltered_origin(2,4) [OF n f] by (auto simp: sane_def)
qed

lemma upd_same_configMap_slot:
  "configMapInformer m = Some i \<Longrightarrow> m\<lparr>configMapInformer := Some i\<rparr> = m"
  by (cases m) simp

lemma AddConfigMapListener_alt:
  "AddConfigMapListener im c clnt ns a u r x w =
     (case managers w im of
        None \<Rightarrow> Inl NilDereference
      | Some m \<Rightarrow>
          (case (case configMapInformer m of
                   None \<Rightarrow> NewFilteredConfigMapInformer clnt ns resyncPeriodConfigMapInformer w
                 | Some i \<Rightarrow> (i, w)) of
             (i, w1) \<Rightarrow>
               (case AddEventHandler i \<lparr>AddFunc = a, UpdateFunc = u, DeleteFunc = r\<rparr> x w1 of
                  Inl e \<Rightarrow> Inl e
                | Inr (err, w2) \<Rightarrow>
                    Inr (store im
                          (m\<lparr>configMapInformer := Some i, configMapSynced := Some (HasSynced i)\<rparr>)
                          (if err \<noteq> None then w2
                           else go (InformerRun i (Some (nextChan w2)))
                                  (w2\<lparr>nextChan := Suc (nextChan w2)\<rparr>))))))"
  by (simp add: AddConfigMapListener_def Let_def make_chan_def upd_same_configMap_slot
      split: api_splits)

lemma AddConfigMapListener_cases:
  assumes "AddConfigMapListener im c clnt ns a u r x w = Inr w'"
  obtains m i w1 err w2 where "managers w im = Some m"
    and "configMapInformer m = None \<and>
           NewFilteredConfigMapInformer clnt ns resyncPeriodConfigMapInformer w = (i, w1) \<or>
         configMapInformer m = Some i \<and> w1 = w"
    and "AddEventHandler i \<lparr>AddFunc = a, UpdateFunc = u, DeleteFunc = r\<rparr> x w1 = Inr (err, w2)"
    and "w' = store im (m\<lparr>configMapInformer := Some i, configMapSynced := Some (HasSynced i)\<rparr>)
                (if err \<noteq> None then w2
                 else go (InformerRun i (Some (nextChan w2))) (w2\<lparr>nextChan := Suc (nextChan w2)\<rparr>))"
  using assms unfolding AddConfigMapListener_alt
  by (auto split: option.splits sum.splits prod.splits)

lemma launch_keeps:
  "origin_of (go g (w\<lparr>nextChan := n\<rparr>)) = origin_of w"
  "resync_of (go g (w\<lparr>nextChan := n\<rparr>)) = resync_of w"
  "factories (go g (w\<lparr>nextChan := n\<rparr>)) = factories w"
  "informers (go g (w\<lparr>nextChan := n\<rparr>)) = informers w"
  "managers (go g (w\<lparr>nextChan := n\<rparr>)) = managers w"
  "nextPtr (go g (w\<lparr>nextChan := n\<rparr>)) = nextPtr w"
  "nextChan (go g (w\<lparr>nextChan := n\<rparr>)) = n"
  "logged (go g (w\<lparr>nextChan := n\<rparr>)) = logged w"
  "goroutines (go g (w\<lparr>nextChan := n\<rparr>)) = goroutines w @ [g]"
  "inClusterInformerManagerInstance (go g (w\<lparr>nextChan := n\<rparr>)) = inClusterInformerManagerInstance w"
  "supervisorInformerManagerInstance (go g (w\<lparr>nextChan := n\<rparr>)) = supervisorInformerManagerInstance w"
  "onlyOneSignalHandlerClosed (go g (w\<lparr>nextChan := n\<rparr>)) = onlyOneSignalHandlerClosed w"
  by (simp_all add: go_def origin_of_def resync_of_def fun_eq_iff)

lemma launch_invariant:
  assumes "fresh w" and "sane w"
  shows "fresh (go g (w\<lparr>nextChan := Suc (nextChan w)\<rparr>))"
    and "sane (go g (w\<lparr>nextChan := Suc (nextChan w)\<rparr>))"
  using assms
  by (auto simp: fresh_def sane_def manager_ok_def launch_keeps less_Suc_eq)

lemma AddConfigMapListener_frame:
  assumes "AddConfigMapListener im c clnt ns a u r x w = Inr w'"
  shows "frame w w'"
proof (rule AddConfigMapListener_cases [OF assms])
  fix m i w1 err w2
  assume m: "managers w im = Some m"
    and i: "configMapInformer m = None \<and>
              NewFilteredConfigMapInformer clnt ns resyncPeriodConfigMapInformer w = (i, w1) \<or>
            configMapInformer m = Some i \<and> w1 = w"
    and h: "AddEventHandler i \<lparr>AddFunc = a, UpdateFunc = u, DeleteFunc = r\<rparr> x w1 = Inr (err, w2)"
    and w': "w' = store im (m\<lparr>configMapInformer := Some i, configMapSynced := Some (HasSynced i)\<rparr>)
                (if err \<noteq> None then w2
                 else go (InformerRun i (Some (nextChan w2))) (w2\<lparr>nextChan := Suc (nextChan w2)\<rparr>))"
  have "same w w1"
    using i NewFiltered_same same_refl by blast
  then have "same w w2"
    using AddEventHandler_same [OF h] same_trans by blast
  then show ?thesis
    using m unfolding w' frame_def same_def by (simp add: store_keeps launch_keeps)
qed

lemma AddConfigMapListener_invariant:
  assumes r: "AddConfigMapListener im c clnt ns a u r x w = Inr w'"
    and f: "fresh w" and s: "sane w"
  shows "fresh w' \<and> sane w'"
proof (rule AddConfigMapListener_cases [OF r])
  fix m i w1 err w2
  assume m: "managers w im = Some m"
    and i: "configMapInformer m = None \<and>
              NewFilteredConfigMapInformer clnt ns resyncPeriodConfigMapInformer w = (i, w1) \<or>
            configMapInformer m = Some i \<and> w1 = w"
    and h: "AddEventHandler i \<lparr>AddFunc = a, UpdateFunc = u, DeleteFunc = r\<rparr> x w1 = Inr (err, w2)"
    and w': "w' = store im (m\<lparr>configMapInformer := Some i, configMapSynced := Some (HasSynced i)\<rparr>)
                (if err \<noteq> None then w2
                 else go (InformerRun i (Some (nextChan w2))) (w2\<lparr>nextChan := Suc (nextChan w2)\<rparr>))"
  let ?m2 = "m\<lparr>configMapInformer := Some i, configMapSynced := Some (HasSynced i)\<rparr>"
  have ok: "manager_ok w m"
    using s m by (auto simp: sane_def)
  have w1: "fresh w1 \<and> sane w1 \<and> same w w1 \<and> manager_ok w1 m \<and>
            (\<exists>c ns. origin_of w1 i = Some (Filtered c ns resyncPeriodConfigMapInformer))"
  proof (rule disjE [OF i])
    assume a: "configMapInformer m = None \<and>
      NewFilteredConfigMapInformer clnt ns resyncPeriodConfigMapInformer w = (i, w1)"
    then have n: "NewFilteredConfigMapInformer clnt ns resyncPeriodConfigMapInformer w = (i, w1)"
      by simp
    have "manager_ok w1 m"
      using ok NewFiltered_origin(2,3) [OF n f] by (intro manager_ok_mono [of w m w1]) auto
    then show ?thesis
      using NewFiltered_fresh [OF n f] NewFiltered_sane [OF n f s] NewFiltered_same [OF n]
        NewFiltered_origin(1) [OF n f] by simp
  next
    assume a: "configMapInformer m = Some i \<and> w1 = w"
    then show ?thesis using f s ok by (simp add: same_refl manager_ok_def)
  qed
  have k2: "origin_of w2 = origin_of w1" "resync_of w2 = resync_of w1"
    using AddEventHandler_keeps [OF h] by simp_all
  have "manager_ok w1 ?m2"
    using w1 by (simp add: manager_ok_def factory_slots_def)
  then have ok2: "manager_ok w2 ?m2"
    using k2 by (simp add: manager_ok_def)
  have s2: "sane w2" "fresh w2" "same w w2"
    using AddEventHandler_sane [OF h] AddEventHandler_fresh [OF h] w1 apply simp_all
    using AddEventHandler_same [OF h] w1 same_trans by blast
  have m2: "managers w2 im = Some m"
    using s2(3) m by (simp add: same_def)
  show ?thesis
  proof (cases "err \<noteq> None")
    case True
    then show ?thesis
      unfolding w' using store_sane [OF s2(1) ok2] store_fresh [OF s2(2) m2, of ?m2] by simp
  next
    case False
    let ?w3 = "go (InformerRun i (Some (nextChan w2))) (w2\<lparr>nextChan := Suc (nextChan w2)\<rparr>)"
    have "manager_ok ?w3 ?m2"
      using ok2 by (simp add: manager_ok_def launch_keeps)
    moreover have "managers ?w3 im = Some m"
      using m2 by (simp add: launch_keeps)
    ultimately show ?thesis
      unfolding w' using False launch_invariant [OF s2(2,1)]
        store_sane [of ?w3 ?m2 im] store_fresh [of ?w3 im m ?m2] by simp
  qed
qed

subsection \<open>The listers, Listen and NewInformer\<close>

lemma same_frame: "same w w' \<Longrightarrow> frame w w'"
  by (simp add: same_def frame_def)

lemma world_of_Inr: "world_of r = Inr w' \<longleftrightarrow> (\<exists>x. r = Inr (x, w'))"
  by (cases r rule: world_of.cases) auto

lemma ListerFor_Inr:
  "ListerFor f k w = Inr (l, w') \<longleftrightarrow> (\<exists>i. InformerFor f k w = Inr (i, w') \<and> l = ListerOf i)"
  by (auto simp: ListerFor_def split: api_splits)

lemma lister_cases:
  assumes "step c w = Inr w'"
    and "c = CallGetPVLister im \<or> c = CallGetPVCLister im \<or> c = CallGetConfigMapLister im \<or>
         c = CallGetPodLister im"
  obtains m k i where "managers w im = Some m" "InformerFor (informerFactory m) k w = Inr (i, w')"
  using assms
  by (auto simp: world_of_Inr ListerFor_Inr GetPVLister_def GetPVCLister_def
      GetConfigMapLister_def GetPodLister_def split: option.splits)

lemma Listen_cases:
  assumes "Listen im wait w = Inr (r, w')"
  obtains m where "managers w im = Some m" "factories w (informerFactory m) \<noteq> None"
    "w' = go (FactoryStart (informerFactory m) (stopCh m)) w"
  using assms unfolding Listen_def by (auto simp: Let_def split: api_splits)

lemma go_keeps:
  "origin_of (go g w) = origin_of w" "resync_of (go g w) = resync_of w"
  "factories (go g w) = factories w" "informers (go g w) = informers w"
  "managers (go g w) = managers w" "nextPtr (go g w) = nextPtr w"
  "nextChan (go g w) = nextChan w" "logged (go g w) = logged w"
  "goroutines (go g w) = goroutines w @ [g]"
  "inClusterInformerManagerInstance (go g w) = inClusterInformerManagerInstance w"
  "supervisorInformerManagerInstance (go g w) = supervisorInformerManagerInstance w"
  "onlyOneSignalHandlerClosed (go g w) = onlyOneSignalHandlerClosed w"
  by (simp_all add: go_def origin_of_def resync_of_def fun_eq_iff)

lemma go_invariant: "fresh (go g w) = fresh w" "sane (go g w) = sane w" "frame w (go g w)"
  by (simp_all add: fresh_def sane_def manager_ok_def frame_def go_keeps)

lemma NewInformer_old:
  "global b w = Some p \<Longrightarrow> NewInformer c clnt b w = Inr (p, w)"
  by (simp add: NewInformer_def global_def)


lemma NewInformer_new:
  assumes "NewInformer c clnt b w = Inr (p, w')" and "global b w = None"
  shows "p = Suc (nextPtr w)"
    and "managers w' =
           (managers w)(Suc (nextPtr w) \<mapsto>
              \<lparr>client = clnt, informerFactory = nextPtr w, stopCh = Some (nextChan w),
               nodeInformer = None, pvInformer = None, pvcInformer = None,
               namespaceInformer = None, configMapInformer = None,
               podInformer = None, volumeAttachmentInformer = None,
               pvSynced = None, pvcSynced = None, namespaceSynced = None,
               configMapSynced = None, podSynced = None\<rparr>)"
    and "factories w' =
           (factories w)(nextPtr w \<mapsto>
              \<lparr>factoryClient = clnt, defaultResync = 0, factoryInformers = Map.empty\<rparr>)"
    and "informers w' = informers w"
    and "nextPtr w' = Suc (Suc (nextPtr w))"
    and "nextChan w' = Suc (nextChan w)"
    and "goroutines w' = goroutines w"
    and "global b w' = Some (Suc (nextPtr w))"
    and "global (\<not> b) w' = global (\<not> b) w"
    and "\<not> onlyOneSignalHandlerClosed w" and "onlyOneSignalHandlerClosed w'"
  using assms
  by (auto simp: NewInformer_def global_def SetupSignalHandler_def make_chan_def
      NewSharedInformerFactory_def store_def Info_def noResyncPeriodFunc_def Let_def
      split: if_splits)

lemma NewInformer_cases:
  assumes "NewInformer c clnt b w = Inr (p, w')"
  obtains (old) "global b w = Some p" "w' = w"
  | (new) "global b w = None"
proof (cases "global b w")
  case None
  then show ?thesis by (rule new)
next
  case (Some q)
  then show ?thesis
    using assms NewInformer_old [OF Some, of c clnt] by (intro old) simp_all
qed

lemma NewInformer_invariant:
  assumes "invariant w" and r: "NewInformer c clnt b w = Inr (p, w')"
  shows "invariant w'"
proof (rule NewInformer_cases [OF r])
  assume "global b w = Some p" "w' = w"
  then show ?thesis using assms(1) by simp
next
  assume None: "global b w = None"
  note n = NewInformer_new [OF r None]
  have f: "fresh w" and s: "sane w" and g: "singletons w"
    using assms(1) by (simp_all add: invariant_def)
  have o: "origin_of w' = origin_of w"
    by (simp add: origin_of_def n fun_eq_iff)
  have rs: "resync_of w' = (resync_of w)(nextPtr w \<mapsto> 0)"
    by (simp add: resync_of_def n fun_eq_iff)
  have nf: "resync_of w (nextPtr w) = None" "factories w (nextPtr w) = None"
    "managers w (Suc (nextPtr w)) = None"
    using f by (auto simp: fresh_def resync_of_def)
  have "fresh w'"
    using f by (auto simp: fresh_def n less_Suc_eq)
  moreover have "sane w'"
  proof -
    have "manager_ok w' m" if "managers w p = Some m" for p m
    proof -
      have "manager_ok w m" using s that by (auto simp: sane_def)
      then show ?thesis
        using nf by (auto simp: manager_ok_def o rs)
    qed
    then show ?thesis
      using s nf by (auto simp: sane_def n o rs manager_ok_def factory_slots_def)
  qed
  moreover have "singletons w'"
  proof -
    have "inClusterInformerManagerInstance w = None"
      "supervisorInformerManagerInstance w = None"
      using g n(10) by (simp_all add: singletons_def)
    then show ?thesis
      using n(2,8,9,11)
      by (cases b) (auto simp: singletons_def global_def)
  qed
  ultimately show ?thesis by (simp add: invariant_def)
qed

subsection \<open>Every call keeps the invariants\<close>

lemma registration_step:
  assumes "register k slot upd im h x w = Inr w'" and "modest slot upd" and "invariant w"
  shows "invariant w'" and "frame w w'"
proof -
  show f: "frame w w'"
    using assms(1,2) by (rule register_frame)
  show "invariant w'"
    using register_invariant [OF assms(1,2)] frame_singletons [OF f] assms(3)
    by (simp add: invariant_def)
qed

lemma lister_step:
  assumes "step c w = Inr w'"
    and "c = CallGetPVLister im \<or> c = CallGetPVCLister im \<or> c = CallGetConfigMapLister im \<or>
         c = CallGetPodLister im"
    and "invariant w"
  shows "invariant w'" and "frame w w'"
proof -
  obtain m k i where m: "managers w im = Some m"
    and i: "InformerFor (informerFactory m) k w = Inr (i, w')"
    using assms(1,2) by (rule lister_cases)
  show f: "frame w w'"
    using InformerFor_same [OF i] by (rule same_frame)
  show "invariant w'"
    using InformerFor_fresh [OF i] InformerFor_sane [OF i] frame_singletons [OF f] assms(3)
    by (simp add: invariant_def)
qed

lemma step_frame:
  assumes "step c w = Inr w'" and "invariant w" and "\<And>x y z. c \<noteq> CallNewInformer x y z"
  shows "frame w w'"
proof (cases c)
  case (CallNewInformer x y z)
  then show ?thesis using assms(3) by simp
next
  case (CallAddNodeListener im a u r x)
  then show ?thesis
    using assms(1,2) registration_step(2) [OF _ modest_instances(1)]
    by (simp add: AddNodeListener_register)
next
  case (CallAddCSINodeListener im a u r x)
  then show ?thesis
    using assms(1,2) registration_step(2) [OF _ modest_instances(1)]
    by (simp add: AddCSINodeListener_register)
next
  case (CallAddPVCListener im a u r x)
  then show ?thesis
    using assms(1,2) registration_step(2) [OF _ modest_instances(2)]
    by (simp add: AddPVCListener_register)
next
  case (CallAddPVListener im a u r x)
  then show ?thesis
    using assms(1,2) registration_step(2) [OF _ modest_instances(3)]
    by (simp add: AddPVListener_register)
next
  case (CallAddNamespaceListener im a u r x)
  then show ?thesis
    using assms(1,2) registration_step(2) [OF _ modest_instances(4)]
    by (simp add: AddNamespaceListener_register)
next
  case (CallAddConfigMapListener im c' clnt ns a u r x)
  then show ?thesis
    using assms(1) AddConfigMapListener_frame by simp
next
  case (CallAddPodListener im a u r x)
  then show ?thesis
    using assms(1,2) registration_step(2) [OF _ modest_instances(5)]
    by (simp add: AddPodListener_register)
next
  case (CallAddVolumeAttachmentListener im a u r x)
  then show ?thesis
    using assms(1,2) registration_step(2) [OF _ modest_instances(6)]
    by (simp add: AddVolumeAttachmentListener_register)
next
  case (CallGetPVLister im)
  then show ?thesis using lister_step(2) [OF assms(1) _ assms(2), of im] by simp
next
  case (CallGetPVCLister im)
  then show ?thesis using lister_step(2) [OF assms(1) _ assms(2), of im] by simp
next
  case (CallGetConfigMapLister im)
  then show ?thesis using lister_step(2) [OF assms(1) _ assms(2), of im] by simp
next
  case (CallGetPodLister im)
  then show ?thesis using lister_step(2) [OF assms(1) _ assms(2), of im] by simp
next
  case (CallListen im wait)
  then obtain r where "Listen im wait w = Inr (r, w')"
    using assms(1) by (auto simp: world_of_Inr)
  then show ?thesis
    by (elim Listen_cases) (simp add: go_invariant)
qed

lemma step_invariant:
  assumes "step c w = Inr w'" and "invariant w"
  shows "invariant w'"
proof (cases c)
  case (CallNewInformer x y z)
  then obtain p where "NewInformer x y z w = Inr (p, w')"
    using assms(1) by (auto simp: world_of_Inr)
  then show ?thesis using assms(2) NewInformer_invariant by blast
next
  case (CallAddNodeListener im a u r x)
  then show ?thesis
    using assms registration_step(1) [OF _ modest_instances(1)]
    by (simp add: AddNodeListener_register)
next
  case (CallAddCSINodeListener im a u r x)
  then show ?thesis
    using assms registration_step(1) [OF _ modest_instances(1)]
    by (simp add: AddCSINodeListener_register)
next
  case (CallAddPVCListener im a u r x)
  then show ?thesis
    using assms registration_step(1) [OF _ modest_instances(2)]
    by (simp add: AddPVCListener_register)
next
  case (CallAddPVListener im a u r x)
  then show ?thesis
    using assms registration_step(1) [OF _ modest_instances(3)]
    by (simp add: AddPVListener_register)
next
  case (CallAddNamespaceListener im a u r x)
  then show ?thesis
    using assms registration_step(1) [OF _ modest_instances(4)]
    by (simp add: AddNamespaceListener_register)
next
  case (CallAddConfigMapListener im c' clnt ns a u r x)
  then have a: "AddConfigMapListener im c' clnt ns a u r x w = Inr w'"
    using assms(1) by simp
  show ?thesis
    using AddConfigMapListener_invariant [OF a]
      frame_singletons [OF AddConfigMapListener_frame [OF a]] assms(2)
    by (simp add: invariant_def)
next
  case (CallAddPodListener im a u r x)
  then show ?thesis
    using assms registration_step(1) [OF _ modest_instances(5)]
    by (simp add: AddPodListener_register)
next
  case (CallAddVolumeAttachmentListener im a u r x)
  then show ?thesis
    using assms registration_step(1) [OF _ modest_instances(6)]
    by (simp add: AddVolumeAttachmentListener_register)
next
  case (CallGetPVLister im)
  then show ?thesis using lister_step(1) [OF assms(1) _ assms(2), of im] by simp
next
  case (CallGetPVCLister im)
  then show ?thesis using lister_step(1) [OF assms(1) _ assms(2), of im] by simp
next
  case (CallGetConfigMapLister im)
  then show ?thesis using lister_step(1) [OF assms(1) _ assms(2), of im] by simp
next
  case (CallGetPodLister im)
  then show ?thesis using lister_step(1) [OF assms(1) _ assms(2), of im] by simp
next
  case (CallListen im wait)
  then obtain r where "Listen im wait w = Inr (r, w')"
    using assms(1) by (auto simp: world_of_Inr)
  then show ?thesis
    using assms(2) frame_singletons [of w w']
    by (elim Listen_cases) (simp add: go_invariant invariant_def)
qed

lemma frame_keeps: "frame w w' \<Longrightarrow> keeps w w'"
  by (simp add: frame_def keeps_def global_def)

lemma keeps_refl: "keeps w w"
  by (simp add: keeps_def)

lemma keeps_trans:
  assumes "keeps w w1" and "keeps w1 w2"
  shows "keeps w w2"
  unfolding keeps_def
proof (intro conjI allI impI)
  fix b p assume "global b w = Some p"
  then show "global b w2 = Some p"
    using assms by (simp add: keeps_def)
next
  fix p m assume "managers w p = Some m"
  then obtain m1 where "managers w1 p = Some m1" "client m1 = client m" "stopCh m1 = stopCh m"
    "informerFactory m1 = informerFactory m"
    using assms(1) unfolding keeps_def by blast
  moreover from this obtain m2 where "managers w2 p = Some m2" "client m2 = client m1"
    "stopCh m2 = stopCh m1" "informerFactory m2 = informerFactory m1"
    using assms(2) unfolding keeps_def by blast
  ultimately show "\<exists>m'. managers w2 p = Some m' \<and> client m' = client m \<and> stopCh m' = stopCh m \<and>
      informerFactory m' = informerFactory m"
    by simp
qed

lemma NewInformer_keeps:
  assumes "invariant w" and r: "NewInformer c clnt b w = Inr (p, w')"
  shows "keeps w w'"
proof (rule NewInformer_cases [OF r])
  assume "global b w = Some p" "w' = w"
  then show ?thesis by (simp add: keeps_refl)
next
  assume None: "global b w = None"
  note n = NewInformer_new [OF r None]
  have "managers w (Suc (nextPtr w)) = None"
    using assms(1) by (auto simp: invariant_def fresh_def)
  then have "managers w' q = Some m" if "managers w q = Some m" for q m
    using that by (auto simp: n(2))
  moreover have "global b' w' = Some q" if "global b' w = Some q" for b' q
    using that None n(9) by (cases "b' = b") auto
  ultimately show ?thesis
    by (simp add: keeps_def)
qed

lemma step_keeps:
  assumes "step c w = Inr w'" and "invariant w"
  shows "keeps w w'"
proof (cases "\<exists>x y z. c = CallNewInformer x y z")
  case True
  then obtain x y z where c: "c = CallNewInformer x y z"
    by blast
  then obtain p where "NewInformer x y z w = Inr (p, w')"
    using assms(1) by (auto simp: world_of_Inr)
  then show ?thesis using assms(2) NewInformer_keeps by blast
next
  case False
  then show ?thesis
    using step_frame [OF assms] frame_keeps by blast
qed

lemma run_invariant:
  assumes "run cs w = Inr w'" and "invariant w"
  shows "invariant w' \<and> keeps w w'"
  using assms
proof (induction cs arbitrary: w)
  case Nil
  then show ?case by (simp add: keeps_refl)
next
  case (Cons c cs)
  then obtain w1 where s: "step c w = Inr w1" and r: "run cs w1 = Inr w'"
    by (auto split: sum.splits)
  have i1: "invariant w1" using step_invariant [OF s Cons.prems(2)] .
  have "invariant w' \<and> keeps w1 w'" using Cons.IH [OF r i1] .
  then show ?case
    using step_keeps [OF s Cons.prems(2)] keeps_trans by blast
qed

lemma run_append:
  "run (cs @ cs') w = (case run cs w of Inl e \<Rightarrow> Inl e | Inr w' \<Rightarrow> run cs' w')"
  by (induction cs arbitrary: w) (auto split: sum.splits)

lemma invariant_initial_world: "invariant initial_world"
  by (simp add: invariant_def fresh_def sane_def singletons_def initial_world_def)

lemma reachable_invariant: "run cs initial_world = Inr w \<Longrightarrow> invariant w"
  using run_invariant invariant_initial_world by blast

subsection \<open>Evaluation at concrete inputs\<close>

lemmas eval_defs = NewInformer_def SetupSignalHandler_def make_chan_def
  NewSharedInformerFactory_def InformerFor_def ListerFor_def NewFilteredConfigMapInformer_def
  AddEventHandler_def go_def Info_def store_def initial_world_def noResyncPeriodFunc_def


subsection \<open>A registration on a manager of a reachable world returns\<close>

lemma AddEventHandler_total:
  assumes "informers w i \<noteq> None"
  shows "\<exists>err w'. AddEventHandler i h x w = Inr (err, w') \<and> (err \<noteq> None) = x"
  using assms unfolding AddEventHandler_def by (auto split: option.splits)

lemma origin_allocated: "origin_of w i = Some x \<Longrightarrow> informers w i \<noteq> None"
  by (auto simp: origin_of_def)

lemma register_total:
  assumes inv: "invariant w" and m: "managers w im = Some m" and u: "modest slot upd"
  shows "\<exists>i w'. register k slot upd im h x w = Inr w' \<and> managers w' im = Some (upd i m) \<and>
           (slot m = None \<or> slot m = Some i) \<and>
           origin_of w' i = Some (FromFactory (informerFactory m)) \<and>
           logged w' = logged w \<and> goroutines w' = goroutines w"
proof -
  have f: "fresh w" and s: "sane w"
    using inv by (simp_all add: invariant_def)
  have ok: "manager_ok w m"
    using s m by (auto simp: sane_def)
  have "\<exists>i w1. (case slot m of None \<Rightarrow> InformerFor (informerFactory m) k w
                  | Some i \<Rightarrow> Inr (i, w)) = Inr (i, w1) \<and>
          (slot m = None \<or> slot m = Some i) \<and> same w w1 \<and>
          origin_of w1 i = Some (FromFactory (informerFactory m))"
  proof (cases "slot m")
    case None
    have "factories w (informerFactory m) \<noteq> None"
      using ok by (auto simp: manager_ok_def resync_of_def)
    then obtain i w1 where c: "InformerFor (informerFactory m) k w = Inr (i, w1)"
      using InformerFor_total by blast
    show ?thesis
      using None c InformerFor_same [OF c] InformerFor_origin(1) [OF c f s] by simp
  next
    case (Some i)
    then have "Some i \<in> set (factory_slots m)"
      using u by (metis modest_def)
    then show ?thesis
      using Some ok by (simp add: manager_ok_def same_refl)
  qed
  then obtain i w1 where e: "(case slot m of None \<Rightarrow> InformerFor (informerFactory m) k w
                  | Some i \<Rightarrow> Inr (i, w)) = Inr (i, w1)"
    and sl: "slot m = None \<or> slot m = Some i" and s1: "same w w1"
    and o1: "origin_of w1 i = Some (FromFactory (informerFactory m))"
    by blast
  obtain err w2 where h: "AddEventHandler i h x w1 = Inr (err, w2)"
    using AddEventHandler_total [OF origin_allocated [OF o1]] by blast
  have s2: "same w w2"
    using s1 AddEventHandler_same [OF h] same_trans by blast
  have "register k slot upd im h x w = Inr (store im (upd i m) w2)"
    using m e h by (simp add: register_def)
  moreover have "origin_of (store im (upd i m) w2) i = Some (FromFactory (informerFactory m))"
    using o1 AddEventHandler_keeps(1) [OF h] by (simp add: store_keeps)
  ultimately show ?thesis
    using sl s2 by (auto simp: store_keeps same_def)
qed

lemma InformerFor_listed:
  assumes "InformerFor f k w = Inr (i, w')"
  shows "\<exists>F. factories w' f = Some F \<and> factoryInformers F k = Some i"
  using assms by (elim InformerFor_cases) auto

lemma register_fills_with:
  assumes m: "managers w im = Some m" and u: "modest slot upd"
    and g: "\<And>i m. slot (upd i m) = Some i"
    and ok: "manager_ok w m"
    and e: "(case slot m of None \<Rightarrow> InformerFor (informerFactory m) k w
             | Some i \<Rightarrow> Inr (i, w)) = Inr (i, w1)"
    and sl: "\<forall>j. slot m = Some j \<longrightarrow> i = j"
    and o1: "origin_of w1 i = Some (FromFactory (informerFactory m))"
    and r1: "resync_of w1 = resync_of w"
    and l1: "slot m = None \<longrightarrow>
               (\<exists>F. factories w1 (informerFactory m) = Some F \<and> factoryInformers F k = Some i)"
  shows "filled_from_factory k slot im m (register k slot upd im h x w)"
proof -
  let ?f = "informerFactory m"
  obtain err w2 where h: "AddEventHandler i h x w1 = Inr (err, w2)"
    using AddEventHandler_total [OF origin_allocated [OF o1]] by blast
  let ?w' = "store im (upd i m) w2"
  have k2: "origin_of w2 = origin_of w1" "resync_of w2 = resync_of w1"
    "factories w2 = factories w1"
    using AddEventHandler_keeps(1-3) [OF h] by simp_all
  have rs: "resync_of w ?f = Some 0"
    using ok by (simp add: manager_ok_def)
  show ?thesis
    unfolding filled_from_factory_def
  proof (intro exI conjI)
    show "register k slot upd im h x w = Inr ?w'"
      using m e h by (simp add: register_def)
    show "managers ?w' im = Some (upd i m)"
      by (simp add: store_keeps)
    show "slot (upd i m) = Some i"
      by (rule g)
    show "informerFactory (upd i m) = ?f"
      using u by (simp add: modest_def)
    show "origin_of ?w' i = Some (FromFactory ?f)"
      using o1 by (simp add: store_keeps k2)
    show "resync_of ?w' ?f = Some 0"
      using rs by (simp add: store_keeps k2 r1)
    show "slot m = None \<longrightarrow>
        (\<exists>F. factories ?w' ?f = Some F \<and> factoryInformers F k = Some i)"
      using l1 by (simp add: store_keeps k2)
    show "\<forall>j. slot m = Some j \<longrightarrow> i = j"
      by (rule sl)
  qed
qed

lemma register_fills:
  assumes inv: "invariant w" and m: "managers w im = Some m" and u: "modest slot upd"
    and g: "\<And>i m. slot (upd i m) = Some i"
  shows "filled_from_factory k slot im m (register k slot upd im h x w)"
proof (cases "slot m")
  case None
  let ?f = "informerFactory m"
  have f: "fresh w" and s: "sane w"
    using inv by (simp_all add: invariant_def)
  have ok: "manager_ok w m"
    using s m by (auto simp: sane_def)
  have "factories w ?f \<noteq> None"
    using ok by (auto simp: manager_ok_def resync_of_def)
  then obtain i w1 where c: "InformerFor ?f k w = Inr (i, w1)"
    using InformerFor_total by blast
  have e: "(case slot m of None \<Rightarrow> InformerFor ?f k w | Some i \<Rightarrow> Inr (i, w)) = Inr (i, w1)"
    using None c by simp
  have sl: "\<forall>j. slot m = Some j \<longrightarrow> i = j"
    using None by simp
  have l1: "slot m = None \<longrightarrow>
      (\<exists>F. factories w1 ?f = Some F \<and> factoryInformers F k = Some i)"
    using InformerFor_listed [OF c] by simp
  show ?thesis
    using m u g ok e sl InformerFor_origin(1) [OF c f s] InformerFor_origin(3) [OF c f s] l1
    by (rule register_fills_with)
next
  case (Some i)
  have s: "sane w"
    using inv by (simp add: invariant_def)
  have ok: "manager_ok w m"
    using s m by (auto simp: sane_def)
  have "slot m \<in> set (factory_slots m)"
    using u by (simp add: modest_def)
  then have "Some i \<in> set (factory_slots m)"
    using Some by simp
  then have o: "origin_of w i = Some (FromFactory (informerFactory m))"
    using ok by (simp add: manager_ok_def)
  have e: "(case slot m of None \<Rightarrow> InformerFor (informerFactory m) k w
            | Some i \<Rightarrow> Inr (i, w)) = Inr (i, w)"
    using Some by simp
  have sl: "\<forall>j. slot m = Some j \<longrightarrow> i = j"
    using Some by simp
  have l1: "slot m = None \<longrightarrow>
      (\<exists>F. factories w (informerFactory m) = Some F \<and> factoryInformers F k = Some i)"
    using Some by simp
  show ?thesis
    using m u g ok e sl o refl l1 by (rule register_fills_with)
qed

lemma AddConfigMapListener_total:
  assumes inv: "invariant w" and m: "managers w im = Some m"
  shows "\<exists>i w'. AddConfigMapListener im c clnt ns a u r x w = Inr w' \<and>
           managers w' im =
             Some (m\<lparr>configMapInformer := Some i, configMapSynced := Some (HasSynced i)\<rparr>) \<and>
           (configMapInformer m = Some i \<or>
            configMapInformer m = None \<and>
              origin_of w' i = Some (Filtered clnt ns resyncPeriodConfigMapInformer)) \<and>
           logged w' = logged w \<and>
           goroutines w' =
             (if x then goroutines w else goroutines w @ [InformerRun i (Some (nextChan w))])"
proof -
  have f: "fresh w" and s: "sane w"
    using inv by (simp_all add: invariant_def)
  have ok: "manager_ok w m"
    using s m by (auto simp: sane_def)
  let ?e = "case configMapInformer m of
              None \<Rightarrow> NewFilteredConfigMapInformer clnt ns resyncPeriodConfigMapInformer w
            | Some i \<Rightarrow> (i, w)"
  obtain i w1 where e: "?e = (i, w1)"
    by (cases ?e) simp
  have p: "same w w1 \<and> informers w1 i \<noteq> None \<and>
           (configMapInformer m = Some i \<or>
            configMapInformer m = None \<and>
              origin_of w1 i = Some (Filtered clnt ns resyncPeriodConfigMapInformer))"
  proof (cases "configMapInformer m")
    case None
    then have n: "NewFilteredConfigMapInformer clnt ns resyncPeriodConfigMapInformer w = (i, w1)"
      using e by simp
    show ?thesis
      using None NewFiltered_same [OF n] NewFiltered_origin(1) [OF n f]
      by (simp add: origin_allocated)
  next
    case (Some j)
    then have "j = i" "w1 = w" using e by simp_all
    then show ?thesis
      using Some ok by (auto simp: manager_ok_def same_refl dest: origin_allocated)
  qed
  then obtain err w2 where h: "AddEventHandler i \<lparr>AddFunc = a, UpdateFunc = u, DeleteFunc = r\<rparr> x w1 = Inr (err, w2)"
    and x: "(err \<noteq> None) = x"
    using AddEventHandler_total by blast
  have s2: "same w w2"
    using p AddEventHandler_same [OF h] same_trans by blast
  let ?m2 = "m\<lparr>configMapInformer := Some i, configMapSynced := Some (HasSynced i)\<rparr>"
  let ?w' = "store im ?m2
               (if err \<noteq> None then w2
                else go (InformerRun i (Some (nextChan w2))) (w2\<lparr>nextChan := Suc (nextChan w2)\<rparr>))"
  have "AddConfigMapListener im c clnt ns a u r x w = Inr ?w'"
    using m e h by (simp add: AddConfigMapListener_alt)
  moreover have "origin_of ?w' = origin_of w1"
    using AddEventHandler_keeps(1) [OF h] by (simp add: store_keeps launch_keeps)
  ultimately show ?thesis
    using p s2 x by (auto simp: store_keeps launch_keeps same_def)
qed

lemma AddNodeListener_returns:
  assumes "invariant w" and "managers w im = Some m"
  shows "\<exists>i w'. AddNodeListener im a u r x w = Inr w' \<and>
           managers w' im = Some (m\<lparr>nodeInformer := Some i\<rparr>) \<and>
           logged w' = logged w \<and> goroutines w' = goroutines w"
  using register_total [OF assms modest_instances(1), of Nodes
      "\<lparr>AddFunc = a, UpdateFunc = u, DeleteFunc = r\<rparr>" x]
  unfolding AddNodeListener_register by blast

lemma AddCSINodeListener_returns:
  assumes "invariant w" and "managers w im = Some m"
  shows "\<exists>i w'. AddCSINodeListener im a u r x w = Inr w' \<and>
           managers w' im = Some (m\<lparr>nodeInformer := Some i\<rparr>) \<and>
           logged w' = logged w \<and> goroutines w' = goroutines w"
  using register_total [OF assms modest_instances(1), of CSINodes
      "\<lparr>AddFunc = a, UpdateFunc = u, DeleteFunc = r\<rparr>" x]
  unfolding AddCSINodeListener_register by blast

lemma AddPVCListener_returns:
  assumes "invariant w" and "managers w im = Some m"
  shows "\<exists>i w'. AddPVCListener im a u r x w = Inr w' \<and>
           managers w' im = Some (m\<lparr>pvcInformer := Some i, pvcSynced := Some (HasSynced i)\<rparr>) \<and>
           logged w' = logged w \<and> goroutines w' = goroutines w"
  using register_total [OF assms modest_instances(2), of PersistentVolumeClaims
      "\<lparr>AddFunc = a, UpdateFunc = u, DeleteFunc = r\<rparr>" x]
  unfolding AddPVCListener_register by blast

lemma AddPVListener_returns:
  assumes "invariant w" and "managers w im = Some m"
  shows "\<exists>i w'. AddPVListener im a u r x w = Inr w' \<and>
           managers w' im = Some (m\<lparr>pvInformer := Some i, pvSynced := Some (HasSynced i)\<rparr>) \<and>
           logged w' = logged w \<and> goroutines w' = goroutines w"
  using register_total [OF assms modest_instances(3), of PersistentVolumes
      "\<lparr>AddFunc = a, UpdateFunc = u, DeleteFunc = r\<rparr>" x]
  unfolding AddPVListener_register by blast

lemma AddNamespaceListener_returns:
  assumes "invariant w" and "managers w im = Some m"
  shows "\<exists>i w'. AddNamespaceListener im a u r x w = Inr w' \<and>
           managers w' im =
             Some (m\<lparr>namespaceInformer := Some i, namespaceSynced := Some (HasSynced i)\<rparr>) \<and>
           logged w' = logged w \<and> goroutines w' = goroutines w"
  using register_total [OF assms modest_instances(4), of Namespaces
      "\<lparr>AddFunc = a, UpdateFunc = u, DeleteFunc = r\<rparr>" x]
  unfolding AddNamespaceListener_register by blast

lemma AddPodListener_returns:
  assumes "invariant w" and "managers w im = Some m"
  shows "\<exists>i w'. AddPodListener im a u r x w = Inr w' \<and>
           managers w' im = Some (m\<lparr>podInformer := Some i, podSynced := Some (HasSynced i)\<rparr>) \<and>
           logged w' = logged w \<and> goroutines w' = goroutines w"
  using register_total [OF assms modest_instances(5), of Pods
      "\<lparr>AddFunc = a, UpdateFunc = u, DeleteFunc = r\<rparr>" x]
  unfolding AddPodListener_register by blast

lemma AddVolumeAttachmentListener_returns:
  assumes "invariant w" and "managers w im = Some m"
  shows "\<exists>i w'. AddVolumeAttachmentListener im a u r x w = Inr w' \<and>
           managers w' im = Some (m\<lparr>volumeAttachmentInformer := Some i\<rparr>) \<and>
           logged w' = logged w \<and> goroutines w' = goroutines w"
  using register_total [OF assms modest_instances(6), of VolumeAttachments
      "\<lparr>AddFunc = a, UpdateFunc = u, DeleteFunc = r\<rparr>" x]
  unfolding AddVolumeAttachmentListener_register by blast

lemma AddConfigMapListener_returns:
  assumes "invariant w" and "managers w im = Some m"
  shows "\<exists>i w'. AddConfigMapListener im c clnt ns a u r x w = Inr w' \<and>
           managers w' im =
             Some (m\<lparr>configMapInformer := Some i, configMapSynced := Some (HasSynced i)\<rparr>) \<and>
           logged w' = logged w \<and>
           goroutines w' =
             (if x then goroutines w else goroutines w @ [InformerRun i (Some (nextChan w))])"
  using AddConfigMapListener_total [OF assms, of c clnt ns a u r x] by blast


subsection \<open>Facts that several claims use\<close>

lemma resyncPeriodConfigMapInformer_value: "resyncPeriodConfigMapInformer = 1800000000000"
  by (simp add: resyncPeriodConfigMapInformer_def Minute_def Second_def Nanosecond_def)

lemma reachable_manager:
  assumes "run cs initial_world = Inr w" and "managers w im = Some m"
  shows "factories w (informerFactory m) \<noteq> None" and "\<exists>c. stopCh m = Some c"
proof -
  have "manager_ok w m"
    using reachable_invariant [OF assms(1)] assms(2) by (auto simp: invariant_def sane_def)
  then show "factories w (informerFactory m) \<noteq> None" and "\<exists>c. stopCh m = Some c"
    by (auto simp: manager_ok_def resync_of_def)
qed

lemma frame_back:
  assumes "frame w w'" and "managers w' p = Some m'"
  shows "\<exists>m. managers w p = Some m \<and> stopCh m' = stopCh m"
proof -
  have "(managers w' p = None) = (managers w p = None)"
    using assms(1) unfolding frame_def by blast
  then obtain m where m: "managers w p = Some m"
    using assms(2) by (cases "managers w p") simp_all
  then obtain m1 where "managers w' p = Some m1" "stopCh m1 = stopCh m"
    using assms(1) unfolding frame_def by blast
  then show ?thesis
    using m assms(2) by simp
qed

section \<open>The claims\<close>

subsection \<open>C1: one manager per identity\<close>






subsection \<open>C2 and C3: the barrier of Listen\<close>

text \<open>
  C2. If one of the four synced predicates that \<open>Listen\<close> looks at is nil, \<open>Listen\<close>
  does not wait: whatever the wait would have answered, and even if it would never have
  answered, the call returns the manager's stop channel, having done nothing but launch
  the factory's start.
\<close>

theorem Listen_skips_barrier:
  assumes "run cs initial_world = Inr w" and "managers w im = Some m"
    and "pvSynced m = None \<or> pvcSynced m = None \<or> podSynced m = None \<or>
         configMapSynced m = None"
  shows "Listen im wait w =
           Inr (stopCh m, go (FactoryStart (informerFactory m) (stopCh m)) w) \<and>
         stopCh m \<noteq> None"
  using assms(2,3) reachable_manager [OF assms(1,2)]
  by (auto simp: Listen_def Let_def split: option.splits)

theorem Listen_skips_barrier_witness:
  "case run [CallNewInformer 0 7 True, CallAddPVListener 1 10 11 12 False] initial_world of
     Inl e \<Rightarrow> False
   | Inr w \<Rightarrow>
       map_option pvSynced (managers w 1) = Some (Some (HasSynced 2)) \<and>
       map_option pvcSynced (managers w 1) = Some None \<and>
       Listen 1 (\<lambda>stop synced. None) w = Inr (Some 0, go (FactoryStart 0 (Some 0)) w)"
proof -
  let ?cs = "[CallNewInformer 0 7 True, CallAddPVListener 1 10 11 12 False]"
  have "\<exists>w m. run ?cs initial_world = Inr w \<and> managers w 1 = Some m \<and>
          pvSynced m = Some (HasSynced 2) \<and> pvcSynced m = None \<and>
          stopCh m = Some 0 \<and> informerFactory m = 0"
    by (simp add: eval_defs AddPVListener_def)
  then obtain w m where r: "run ?cs initial_world = Inr w" and m: "managers w 1 = Some m"
    and v: "pvSynced m = Some (HasSynced 2)" "pvcSynced m = None" "stopCh m = Some 0"
      "informerFactory m = 0"
    by blast
  have "pvSynced m = None \<or> pvcSynced m = None \<or> podSynced m = None \<or> configMapSynced m = None"
    using v by simp
  from Listen_skips_barrier [OF r m this, of "\<lambda>stop synced. None"] show ?thesis
    unfolding r using m v by simp
qed

text \<open>
  C3. If all four synced predicates are set, \<open>Listen\<close> waits on the manager's stop
  channel and on exactly those four. A wait that is cut short by the stop channel
  (answer false) makes \<open>Listen\<close> return the nil channel, which is not the manager's stop
  channel; a wait that succeeds makes it return the manager's stop channel.
\<close>

theorem Listen_barrier_outcome:
  assumes "run cs initial_world = Inr w" and "managers w im = Some m"
    and "pvSynced m = Some pv" and "pvcSynced m = Some pvc" and "podSynced m = Some pod"
    and "configMapSynced m = Some cm"
  shows "\<exists>c. stopCh m = Some c \<and>
           Listen im wait w =
             (case wait (Some c) [pv, pvc, pod, cm] of
                None \<Rightarrow> Inl NeverReturns
              | Some synced \<Rightarrow>
                  Inr (if synced then Some c else None,
                       go (FactoryStart (informerFactory m) (Some c)) w))"
proof -
  obtain c where c: "stopCh m = Some c"
    using reachable_manager(2) [OF assms(1,2)] by blast
  have "Listen im wait w =
          (case wait (Some c) [pv, pvc, pod, cm] of
             None \<Rightarrow> Inl NeverReturns
           | Some synced \<Rightarrow>
               Inr (if synced then Some c else None,
                    go (FactoryStart (informerFactory m) (Some c)) w))"
    using assms(2-) c reachable_manager(1) [OF assms(1,2)]
    by (auto simp: Listen_def Let_def split: option.splits)
  with c show ?thesis by blast
qed

theorem Listen_barrier_outcome_witness:
  "case run [CallNewInformer 0 7 True, CallAddPVListener 1 10 11 12 False,
             CallAddPVCListener 1 20 21 22 False, CallAddPodListener 1 30 31 32 False,
             CallAddConfigMapListener 1 0 7 ''kube-system'' 40 41 42 False] initial_world of
     Inl e \<Rightarrow> False
   | Inr w \<Rightarrow>
       Listen 1 (\<lambda>stop synced. Some False) w = Inr (None, go (FactoryStart 0 (Some 0)) w) \<and>
       Listen 1 (\<lambda>stop synced. Some True) w = Inr (Some 0, go (FactoryStart 0 (Some 0)) w) \<and>
       Listen 1 (\<lambda>stop synced. None) w = Inl NeverReturns"
proof -
  let ?cs = "[CallNewInformer 0 7 True, CallAddPVListener 1 10 11 12 False,
             CallAddPVCListener 1 20 21 22 False, CallAddPodListener 1 30 31 32 False,
             CallAddConfigMapListener 1 0 7 ''kube-system'' 40 41 42 False]"
  have "\<exists>w m. run ?cs initial_world = Inr w \<and> managers w 1 = Some m \<and>
          pvSynced m = Some (HasSynced 2) \<and> pvcSynced m = Some (HasSynced 3) \<and>
          podSynced m = Some (HasSynced 4) \<and> configMapSynced m = Some (HasSynced 5) \<and>
          stopCh m = Some 0 \<and> informerFactory m = 0"
    by (simp add: eval_defs AddPVListener_def AddPVCListener_def AddPodListener_def
        AddConfigMapListener_def)
  then obtain w m where r: "run ?cs initial_world = Inr w" and m: "managers w 1 = Some m"
    and v: "pvSynced m = Some (HasSynced 2)" "pvcSynced m = Some (HasSynced 3)"
      "podSynced m = Some (HasSynced 4)" "configMapSynced m = Some (HasSynced 5)"
    and s: "stopCh m = Some 0" "informerFactory m = 0"
    by blast
  note t = Listen_barrier_outcome [OF r m v]
  show ?thesis
    unfolding r
    using t [of "\<lambda>stop synced. Some False"] t [of "\<lambda>stop synced. Some True"]
      t [of "\<lambda>stop synced. None"] s
    by simp
qed

subsection \<open>C4: the stop channel of the config-map run loop\<close>

text \<open>
  C4 at its failing input. A manager is made, a config-map listener is registered and
  taken, then \<open>Listen\<close> is called. The manager's stop channel is channel 0. The run loop
  of the config-map informer was launched on channel 1, made inside the registration;
  the factory's start was launched on channel 0.
\<close>

theorem config_map_run_loop_has_its_own_channel:
  "map_option stopCh
     (manager_after
        (run [CallNewInformer 0 7 True,
              CallAddConfigMapListener 1 0 7 ''kube-system'' 10 11 12 False,
              CallListen 1 (\<lambda>stop synced. Some True)] initial_world) 1) = Some (Some 0) \<and>
   map_option configMapInformer
     (manager_after
        (run [CallNewInformer 0 7 True,
              CallAddConfigMapListener 1 0 7 ''kube-system'' 10 11 12 False,
              CallListen 1 (\<lambda>stop synced. Some True)] initial_world) 1) = Some (Some 2) \<and>
   goroutines_after
     (run [CallNewInformer 0 7 True,
           CallAddConfigMapListener 1 0 7 ''kube-system'' 10 11 12 False,
           CallListen 1 (\<lambda>stop synced. Some True)] initial_world) =
     Some [InformerRun 2 (Some 1), FactoryStart 0 (Some 0)]"
  by (simp add: eval_defs AddConfigMapListener_def Listen_def manager_after_def
      goroutines_after_def)

text \<open>
  The same in every reachable world: the channel of the run loop is one that no manager
  has as its stop channel.
\<close>

lemma config_map_run_loop_channel_is_fresh:
  assumes "run cs initial_world = Inr w" and "managers w im = Some m"
  shows "\<exists>i w'. AddConfigMapListener im c clnt ns a u r False w = Inr w' \<and>
           goroutines w' = goroutines w @ [InformerRun i (Some (nextChan w))] \<and>
           (\<forall>p m'. managers w' p = Some m' \<longrightarrow> stopCh m' \<noteq> Some (nextChan w))"
proof -
  note i = reachable_invariant [OF assms(1)]
  obtain j w' where a: "AddConfigMapListener im c clnt ns a u r False w = Inr w'"
    and g: "goroutines w' = goroutines w @ [InformerRun j (Some (nextChan w))]"
    using AddConfigMapListener_returns [OF i assms(2), of c clnt ns a u r False] by auto
  have f: "frame w w'"
    using a by (rule AddConfigMapListener_frame)
  have "stopCh m' \<noteq> Some (nextChan w)" if m': "managers w' p = Some m'" for p m'
  proof -
    obtain m0 where m0: "managers w p = Some m0" and "stopCh m' = stopCh m0"
      using frame_back [OF f m'] by blast
    moreover have "c' < nextChan w" if "stopCh m0 = Some c'" for c'
      using i m0 that unfolding invariant_def fresh_def by blast
    ultimately show ?thesis
      by auto
  qed
  then show ?thesis using a g by blast
qed

subsection \<open>C5: the slot of the CSINode registration\<close>

text \<open>
  C5 at its failing input. A manager is made, a node listener is registered, then a
  CSINode listener. The CSINode registration finds the node slot filled and asks the
  factory for nothing: the factory lists a node informer and no CSINode informer, only
  three objects exist (factory, manager, node informer), and the node informer carries
  both handlers.
\<close>

theorem CSINode_listener_after_node_listener:
  "map_option nodeInformer
     (manager_after
        (run [CallNewInformer 0 7 True, CallAddNodeListener 1 10 11 12 False,
              CallAddCSINodeListener 1 20 21 22 False] initial_world) 1) = Some (Some 2) \<and>
   informer_after
     (run [CallNewInformer 0 7 True, CallAddNodeListener 1 10 11 12 False,
           CallAddCSINodeListener 1 20 21 22 False] initial_world) 2 =
     Some \<lparr>kindOf = Nodes, madeBy = FromFactory 0,
           handlers = [\<lparr>AddFunc = 10, UpdateFunc = 11, DeleteFunc = 12\<rparr>,
                       \<lparr>AddFunc = 20, UpdateFunc = 21, DeleteFunc = 22\<rparr>]\<rparr> \<and>
   map_option (\<lambda>F. (factoryInformers F Nodes, factoryInformers F CSINodes))
     (factory_after
        (run [CallNewInformer 0 7 True, CallAddNodeListener 1 10 11 12 False,
              CallAddCSINodeListener 1 20 21 22 False] initial_world) 0) = Some (Some 2, None) \<and>
   informer_after
     (run [CallNewInformer 0 7 True, CallAddNodeListener 1 10 11 12 False,
           CallAddCSINodeListener 1 20 21 22 False] initial_world) 3 = None"
  by (simp add: eval_defs AddNodeListener_def AddCSINodeListener_def manager_after_def
      informer_after_def factory_after_def)

text \<open>
  The other order: after a CSINode listener, a node listener lands on the CSINode
  informer.
\<close>

lemma node_listener_after_CSINode_listener:
  "informer_after
     (run [CallNewInformer 0 7 True, CallAddCSINodeListener 1 20 21 22 False,
           CallAddNodeListener 1 10 11 12 False] initial_world) 2 =
     Some \<lparr>kindOf = CSINodes, madeBy = FromFactory 0,
           handlers = [\<lparr>AddFunc = 20, UpdateFunc = 21, DeleteFunc = 22\<rparr>,
                       \<lparr>AddFunc = 10, UpdateFunc = 11, DeleteFunc = 12\<rparr>]\<rparr>"
  by (simp add: eval_defs AddNodeListener_def AddCSINodeListener_def informer_after_def)

text \<open>
  The same in every reachable world: once the node slot of a manager is filled, by either
  registration, a CSINode registration hands its callbacks to the informer in that slot
  and makes no informer.
\<close>

lemma CSINode_registration_reuses_node_slot:
  assumes "run cs initial_world = Inr w" and "managers w im = Some m"
    and "nodeInformer m = Some i"
  shows "\<exists>I w'. informers w i = Some I \<and>
           AddCSINodeListener im a u r False w = Inr w' \<and>
           informers w' =
             (informers w)(i \<mapsto>
                I\<lparr>handlers := handlers I @ [\<lparr>AddFunc = a, UpdateFunc = u, DeleteFunc = r\<rparr>]\<rparr>) \<and>
           factories w' = factories w \<and> nextPtr w' = nextPtr w"
proof -
  have "manager_ok w m"
    using reachable_invariant [OF assms(1)] assms(2) by (auto simp: invariant_def sane_def)
  moreover have "Some i \<in> set (factory_slots m)"
    using assms(3) by (simp add: factory_slots_def)
  ultimately have "origin_of w i \<noteq> None"
    by (simp add: manager_ok_def)
  then obtain I where "informers w i = Some I"
    by (auto simp: origin_of_def)
  then show ?thesis
    using assms(2,3) by (simp add: AddCSINodeListener_def AddEventHandler_def store_def)
qed

subsection \<open>C6: the informer behind the config-map lister\<close>

text \<open>
  C6 at its failing input. A manager is made and a config-map listener is registered and
  taken: the config-map slot holds informer 2, a filtered informer, and the one run loop
  is that of informer 2. \<open>GetConfigMapLister\<close> then returns a lister over informer 3, an
  informer the factory makes at that moment, with no handler and no run loop.
\<close>

theorem config_map_lister_reads_another_informer:
  "map_option configMapInformer
     (manager_after
        (run [CallNewInformer 0 7 True,
              CallAddConfigMapListener 1 0 7 ''kube-system'' 10 11 12 False] initial_world) 1) =
     Some (Some 2) \<and>
   informer_after
     (run [CallNewInformer 0 7 True,
           CallAddConfigMapListener 1 0 7 ''kube-system'' 10 11 12 False] initial_world) 2 =
     Some \<lparr>kindOf = ConfigMaps, madeBy = Filtered 7 ''kube-system'' 1800000000000,
           handlers = [\<lparr>AddFunc = 10, UpdateFunc = 11, DeleteFunc = 12\<rparr>]\<rparr> \<and>
   value_of
     (then_call
        (run [CallNewInformer 0 7 True,
              CallAddConfigMapListener 1 0 7 ''kube-system'' 10 11 12 False] initial_world)
        (GetConfigMapLister 1)) = Some (ListerOf 3) \<and>
   informer_after
     (world_of
        (then_call
           (run [CallNewInformer 0 7 True,
                 CallAddConfigMapListener 1 0 7 ''kube-system'' 10 11 12 False] initial_world)
           (GetConfigMapLister 1))) 3 =
     Some \<lparr>kindOf = ConfigMaps, madeBy = FromFactory 0, handlers = []\<rparr> \<and>
   goroutines_after
     (world_of
        (then_call
           (run [CallNewInformer 0 7 True,
                 CallAddConfigMapListener 1 0 7 ''kube-system'' 10 11 12 False] initial_world)
           (GetConfigMapLister 1))) = Some [InformerRun 2 (Some 1)]"
  by (simp add: eval_defs AddConfigMapListener_def GetConfigMapLister_def manager_after_def
      informer_after_def goroutines_after_def then_call_def value_of_def
      resyncPeriodConfigMapInformer_value)

text \<open>
  The PV lister, for comparison, reads the informer the PV registration filled the slot
  with.
\<close>

lemma PV_lister_reads_the_registered_informer:
  "map_option pvInformer
     (manager_after
        (run [CallNewInformer 0 7 True, CallAddPVListener 1 10 11 12 False] initial_world) 1) =
     Some (Some 2) \<and>
   value_of
     (then_call
        (run [CallNewInformer 0 7 True, CallAddPVListener 1 10 11 12 False] initial_world)
        (GetPVLister 1)) = Some (ListerOf 2)"
  by (simp add: eval_defs AddPVListener_def GetPVLister_def manager_after_def then_call_def
      value_of_def)

text \<open>
  The same in every reachable world: once the config-map slot of a manager is filled, the
  lister that \<open>GetConfigMapLister\<close> returns is over another informer, one of the
  manager's factory.
\<close>

lemma config_map_lister_is_not_over_the_registered_informer:
  assumes "run cs initial_world = Inr w" and "managers w im = Some m"
    and "configMapInformer m = Some i"
  shows "\<exists>j w'. GetConfigMapLister im w = Inr (ListerOf j, w') \<and> j \<noteq> i \<and>
           origin_of w' j = Some (FromFactory (informerFactory m))"
proof -
  note inv = reachable_invariant [OF assms(1)]
  have f: "fresh w" and s: "sane w"
    using inv by (simp_all add: invariant_def)
  have ok: "manager_ok w m"
    using s assms(2) by (auto simp: sane_def)
  obtain c ns where o: "origin_of w i = Some (Filtered c ns resyncPeriodConfigMapInformer)"
    using ok assms(3) unfolding manager_ok_def by blast
  obtain j w' where g: "InformerFor (informerFactory m) ConfigMaps w = Inr (j, w')"
    using InformerFor_total [OF reachable_manager(1) [OF assms(1,2)]] by blast
  have oj: "origin_of w' j = Some (FromFactory (informerFactory m))"
    using InformerFor_origin(1) [OF g f s] .
  have "origin_of w' i = Some (Filtered c ns resyncPeriodConfigMapInformer)"
    using InformerFor_origin(2) [OF g f s o] .
  then have "j \<noteq> i"
    using oj by auto
  then show ?thesis
    using g oj assms(2) by (simp add: GetConfigMapLister_def ListerFor_def)
qed

subsection \<open>C7: which registrations set a synced predicate\<close>

lemma Listen_ignores_namespaceSynced:
  assumes "managers w im = Some m"
  shows "Listen im wait (store im (m\<lparr>namespaceSynced := s\<rparr>) w) =
           (case Listen im wait w of
              Inl e \<Rightarrow> Inl e
            | Inr (ch, w') \<Rightarrow> Inr (ch, store im (m\<lparr>namespaceSynced := s\<rparr>) w'))"
  using assms
  by (simp add: Listen_def store_def go_def Let_def split: option.splits bool.splits)

text \<open>
  C7, as amended. Five registrations set a synced predicate, each its own and each to
  the \<open>HasSynced\<close> of the informer in its slot: PV, PVC, pod, config-map and namespace.
  The node, CSINode and volume-attachment registrations leave the five predicates as they
  were. \<open>Listen\<close> reads four of the five: what it does is the same whatever
  \<open>namespaceSynced\<close> holds.
\<close>

theorem synced_predicates_of_registrations:
  assumes "run cs initial_world = Inr w" and "managers w im = Some m"
  shows "(\<exists>w' m'. AddNodeListener im a u r x w = Inr w' \<and> managers w' im = Some m' \<and>
            synced_predicates m' = synced_predicates m) \<and>
         (\<exists>w' m'. AddCSINodeListener im a u r x w = Inr w' \<and> managers w' im = Some m' \<and>
            synced_predicates m' = synced_predicates m) \<and>
         (\<exists>w' m'. AddVolumeAttachmentListener im a u r x w = Inr w' \<and>
            managers w' im = Some m' \<and> synced_predicates m' = synced_predicates m) \<and>
         (\<exists>i w' m'. AddPVListener im a u r x w = Inr w' \<and> managers w' im = Some m' \<and>
            pvInformer m' = Some i \<and>
            synced_predicates m' =
              [Some (HasSynced i), pvcSynced m, podSynced m, configMapSynced m,
               namespaceSynced m]) \<and>
         (\<exists>i w' m'. AddPVCListener im a u r x w = Inr w' \<and> managers w' im = Some m' \<and>
            pvcInformer m' = Some i \<and>
            synced_predicates m' =
              [pvSynced m, Some (HasSynced i), podSynced m, configMapSynced m,
               namespaceSynced m]) \<and>
         (\<exists>i w' m'. AddPodListener im a u r x w = Inr w' \<and> managers w' im = Some m' \<and>
            podInformer m' = Some i \<and>
            synced_predicates m' =
              [pvSynced m, pvcSynced m, Some (HasSynced i), configMapSynced m,
               namespaceSynced m]) \<and>
         (\<exists>i w' m'. AddConfigMapListener im c clnt ns a u r x w = Inr w' \<and>
            managers w' im = Some m' \<and> configMapInformer m' = Some i \<and>
            synced_predicates m' =
              [pvSynced m, pvcSynced m, podSynced m, Some (HasSynced i), namespaceSynced m]) \<and>
         (\<exists>i w' m'. AddNamespaceListener im a u r x w = Inr w' \<and> managers w' im = Some m' \<and>
            namespaceInformer m' = Some i \<and>
            synced_predicates m' =
              [pvSynced m, pvcSynced m, podSynced m, configMapSynced m,
               Some (HasSynced i)]) \<and>
         Listen im wait (store im (m\<lparr>namespaceSynced := s\<rparr>) w) =
           (case Listen im wait w of
              Inl e \<Rightarrow> Inl e
            | Inr (ch, w') \<Rightarrow> Inr (ch, store im (m\<lparr>namespaceSynced := s\<rparr>) w'))"
proof -
  note i = reachable_invariant [OF assms(1)]
  have "\<exists>w' m'. AddNodeListener im a u r x w = Inr w' \<and> managers w' im = Some m' \<and>
            synced_predicates m' = synced_predicates m"
    using AddNodeListener_returns [OF i assms(2), of a u r x]
    by (auto simp: synced_predicates_def)
  moreover have "\<exists>w' m'. AddCSINodeListener im a u r x w = Inr w' \<and>
            managers w' im = Some m' \<and> synced_predicates m' = synced_predicates m"
    using AddCSINodeListener_returns [OF i assms(2), of a u r x]
    by (auto simp: synced_predicates_def)
  moreover have "\<exists>w' m'. AddVolumeAttachmentListener im a u r x w = Inr w' \<and>
            managers w' im = Some m' \<and> synced_predicates m' = synced_predicates m"
    using AddVolumeAttachmentListener_returns [OF i assms(2), of a u r x]
    by (auto simp: synced_predicates_def)
  moreover have "\<exists>i w' m'. AddPVListener im a u r x w = Inr w' \<and> managers w' im = Some m' \<and>
            pvInformer m' = Some i \<and>
            synced_predicates m' =
              [Some (HasSynced i), pvcSynced m, podSynced m, configMapSynced m,
               namespaceSynced m]"
    using AddPVListener_returns [OF i assms(2), of a u r x]
    by (auto simp: synced_predicates_def)
  moreover have "\<exists>i w' m'. AddPVCListener im a u r x w = Inr w' \<and> managers w' im = Some m' \<and>
            pvcInformer m' = Some i \<and>
            synced_predicates m' =
              [pvSynced m, Some (HasSynced i), podSynced m, configMapSynced m,
               namespaceSynced m]"
    using AddPVCListener_returns [OF i assms(2), of a u r x]
    by (auto simp: synced_predicates_def)
  moreover have "\<exists>i w' m'. AddPodListener im a u r x w = Inr w' \<and> managers w' im = Some m' \<and>
            podInformer m' = Some i \<and>
            synced_predicates m' =
              [pvSynced m, pvcSynced m, Some (HasSynced i), configMapSynced m,
               namespaceSynced m]"
    using AddPodListener_returns [OF i assms(2), of a u r x]
    by (auto simp: synced_predicates_def)
  moreover have "\<exists>i w' m'. AddConfigMapListener im c clnt ns a u r x w = Inr w' \<and>
            managers w' im = Some m' \<and> configMapInformer m' = Some i \<and>
            synced_predicates m' =
              [pvSynced m, pvcSynced m, podSynced m, Some (HasSynced i), namespaceSynced m]"
    using AddConfigMapListener_returns [OF i assms(2), of c clnt ns a u r x]
    by (auto simp: synced_predicates_def)
  moreover have "\<exists>i w' m'. AddNamespaceListener im a u r x w = Inr w' \<and>
            managers w' im = Some m' \<and> namespaceInformer m' = Some i \<and>
            synced_predicates m' =
              [pvSynced m, pvcSynced m, podSynced m, configMapSynced m,
               Some (HasSynced i)]"
    using AddNamespaceListener_returns [OF i assms(2), of a u r x]
    by (auto simp: synced_predicates_def)
  ultimately show ?thesis
    using Listen_ignores_namespaceSynced [OF assms(2), of wait s] by blast
qed

theorem synced_predicates_of_registrations_witness:
  "map_option synced_predicates
     (manager_after (run [CallNewInformer 0 7 True] initial_world) 1) =
     Some [None, None, None, None, None] \<and>
   map_option synced_predicates
     (manager_after
        (run [CallNewInformer 0 7 True, CallAddVolumeAttachmentListener 1 10 11 12 False]
           initial_world) 1) =
     Some [None, None, None, None, None]"
proof -
  let ?cs = "[CallNewInformer 0 7 True]"
  let ?c = "CallAddVolumeAttachmentListener 1 10 11 12 False"
  have "\<exists>w m. run ?cs initial_world = Inr w \<and> managers w 1 = Some m \<and>
          synced_predicates m = [None, None, None, None, None]"
    by (simp add: eval_defs synced_predicates_def)
  then obtain w m where r: "run ?cs initial_world = Inr w" and m: "managers w 1 = Some m"
    and p: "synced_predicates m = [None, None, None, None, None]"
    by blast
  from synced_predicates_of_registrations [OF r m, of 10 11 12 False]
  obtain w' m' where a: "AddVolumeAttachmentListener 1 10 11 12 False w = Inr w'"
    and b: "managers w' 1 = Some m'" "synced_predicates m' = synced_predicates m"
    by blast
  have "run (?cs @ [?c]) initial_world = Inr w'"
    unfolding run_append r using a by simp
  then show ?thesis
    using r m p b by (simp add: manager_after_def)
qed

text \<open>
  The claim C7 as it was stated says that the namespace registration sets no synced
  predicate. It sets \<open>namespaceSynced\<close>: on a new manager, whose five predicates are nil,
  one namespace registration leaves the fifth set.
\<close>

theorem namespace_listener_sets_no_synced_counterexample:
  "map_option synced_predicates
     (manager_after (run [CallNewInformer 0 7 True] initial_world) 1) =
     Some [None, None, None, None, None] \<and>
   map_option synced_predicates
     (manager_after
        (run [CallNewInformer 0 7 True, CallAddNamespaceListener 1 10 11 12 False]
           initial_world) 1) =
     Some [None, None, None, None, Some (HasSynced 2)]"
  by (simp add: eval_defs AddNamespaceListener_def manager_after_def synced_predicates_def)

subsection \<open>C8: how the watchers are constructed\<close>

text \<open>
  C8. In every world the package can reach, and for every manager in it: the factory of
  the manager was made with the resync period of \<open>noResyncPeriodFunc\<close>, which is zero;
  the informer in the config-map slot was made by \<open>NewFilteredConfigMapInformer\<close>, with
  a client, a namespace and the resync period of thirty minutes, and no factory lists it;
  the informer in any other slot was made by the manager's factory. A config-map
  registration that finds the slot empty fills it with an informer made for the client
  and the namespace of that call. Each of the seven other registrations returns with its
  slot filled by an informer of the manager's factory: the one the factory lists for the
  kind the registration asks for if the slot was empty, the one the slot held otherwise.
\<close>

theorem watcher_construction:
  assumes "run cs initial_world = Inr w" and "managers w im = Some m"
  shows "resync_of w (informerFactory m) = Some noResyncPeriodFunc \<and>
         noResyncPeriodFunc = 0 \<and>
         resyncPeriodConfigMapInformer = 30 * (60 * 1000000000) \<and>
         (\<forall>i. configMapInformer m = Some i \<longrightarrow>
            (\<exists>c ns. origin_of w i = Some (Filtered c ns resyncPeriodConfigMapInformer)) \<and>
            (\<forall>f F k. factories w f = Some F \<longrightarrow> factoryInformers F k \<noteq> Some i)) \<and>
         (\<forall>i. Some i \<in> set (factory_slots m) \<longrightarrow>
            origin_of w i = Some (FromFactory (informerFactory m))) \<and>
         (configMapInformer m = None \<longrightarrow>
            (\<exists>i w' m'. AddConfigMapListener im c clnt ns a u r x w = Inr w' \<and>
               managers w' im = Some m' \<and> configMapInformer m' = Some i \<and>
               origin_of w' i = Some (Filtered clnt ns resyncPeriodConfigMapInformer))) \<and>
         filled_from_factory Nodes nodeInformer im m (AddNodeListener im a u r x w) \<and>
         filled_from_factory CSINodes nodeInformer im m (AddCSINodeListener im a u r x w) \<and>
         filled_from_factory PersistentVolumeClaims pvcInformer im m
           (AddPVCListener im a u r x w) \<and>
         filled_from_factory PersistentVolumes pvInformer im m (AddPVListener im a u r x w) \<and>
         filled_from_factory Namespaces namespaceInformer im m
           (AddNamespaceListener im a u r x w) \<and>
         filled_from_factory Pods podInformer im m (AddPodListener im a u r x w) \<and>
         filled_from_factory VolumeAttachments volumeAttachmentInformer im m
           (AddVolumeAttachmentListener im a u r x w)"
proof -
  note i = reachable_invariant [OF assms(1)]
  have s: "sane w"
    using i by (simp add: invariant_def)
  have ok: "manager_ok w m"
    using s assms(2) by (auto simp: sane_def)
  have cm: "(\<exists>c ns. origin_of w i = Some (Filtered c ns resyncPeriodConfigMapInformer)) \<and>
            (\<forall>f F k. factories w f = Some F \<longrightarrow> factoryInformers F k \<noteq> Some i)"
    if cmi: "configMapInformer m = Some i" for i
  proof -
    obtain c ns where o: "origin_of w i = Some (Filtered c ns resyncPeriodConfigMapInformer)"
      using ok cmi unfolding manager_ok_def by blast
    have "factoryInformers F k \<noteq> Some i" if fac: "factories w f = Some F" for f F k
    proof
      assume "factoryInformers F k = Some i"
      then have "origin_of w i = Some (FromFactory f)"
        using s fac by (auto simp: sane_def)
      then show False using o by simp
    qed
    then show ?thesis using o by blast
  qed
  have new: "\<exists>i w' m'. AddConfigMapListener im c clnt ns a u r x w = Inr w' \<and>
               managers w' im = Some m' \<and> configMapInformer m' = Some i \<and>
               origin_of w' i = Some (Filtered clnt ns resyncPeriodConfigMapInformer)"
    if "configMapInformer m = None"
    using AddConfigMapListener_total [OF i assms(2), of c clnt ns a u r x] that by auto
  have first: "resync_of w (informerFactory m) = Some noResyncPeriodFunc \<and>
         noResyncPeriodFunc = 0 \<and>
         resyncPeriodConfigMapInformer = 30 * (60 * 1000000000) \<and>
         (\<forall>i. configMapInformer m = Some i \<longrightarrow>
            (\<exists>c ns. origin_of w i = Some (Filtered c ns resyncPeriodConfigMapInformer)) \<and>
            (\<forall>f F k. factories w f = Some F \<longrightarrow> factoryInformers F k \<noteq> Some i)) \<and>
         (\<forall>i. Some i \<in> set (factory_slots m) \<longrightarrow>
            origin_of w i = Some (FromFactory (informerFactory m))) \<and>
         (configMapInformer m = None \<longrightarrow>
            (\<exists>i w' m'. AddConfigMapListener im c clnt ns a u r x w = Inr w' \<and>
               managers w' im = Some m' \<and> configMapInformer m' = Some i \<and>
               origin_of w' i = Some (Filtered clnt ns resyncPeriodConfigMapInformer)))"
    using ok cm new
    by (simp add: manager_ok_def noResyncPeriodFunc_def resyncPeriodConfigMapInformer_value)
  note fills = register_fills [OF i assms(2)]
  have "filled_from_factory Nodes nodeInformer im m (AddNodeListener im a u r x w)"
    unfolding AddNodeListener_register by (rule fills [OF modest_instances(1)]) simp
  moreover have "filled_from_factory CSINodes nodeInformer im m
      (AddCSINodeListener im a u r x w)"
    unfolding AddCSINodeListener_register by (rule fills [OF modest_instances(1)]) simp
  moreover have "filled_from_factory PersistentVolumeClaims pvcInformer im m
      (AddPVCListener im a u r x w)"
    unfolding AddPVCListener_register by (rule fills [OF modest_instances(2)]) simp
  moreover have "filled_from_factory PersistentVolumes pvInformer im m
      (AddPVListener im a u r x w)"
    unfolding AddPVListener_register by (rule fills [OF modest_instances(3)]) simp
  moreover have "filled_from_factory Namespaces namespaceInformer im m
      (AddNamespaceListener im a u r x w)"
    unfolding AddNamespaceListener_register by (rule fills [OF modest_instances(4)]) simp
  moreover have "filled_from_factory Pods podInformer im m (AddPodListener im a u r x w)"
    unfolding AddPodListener_register by (rule fills [OF modest_instances(5)]) simp
  moreover have "filled_from_factory VolumeAttachments volumeAttachmentInformer im m
      (AddVolumeAttachmentListener im a u r x w)"
    unfolding AddVolumeAttachmentListener_register
    by (rule fills [OF modest_instances(6)]) simp
  ultimately show ?thesis
    using first by blast
qed

theorem watcher_construction_witness:
  "map_option defaultResync
     (factory_after
        (run [CallNewInformer 0 7 True, CallAddPodListener 1 10 11 12 False,
              CallAddConfigMapListener 1 0 8 ''kube-system'' 20 21 22 False] initial_world) 0) =
     Some 0 \<and>
   map_option madeBy
     (informer_after
        (run [CallNewInformer 0 7 True, CallAddPodListener 1 10 11 12 False,
              CallAddConfigMapListener 1 0 8 ''kube-system'' 20 21 22 False] initial_world) 2) =
     Some (FromFactory 0) \<and>
   map_option madeBy
     (informer_after
        (run [CallNewInformer 0 7 True, CallAddPodListener 1 10 11 12 False,
              CallAddConfigMapListener 1 0 8 ''kube-system'' 20 21 22 False] initial_world) 3) =
     Some (Filtered 8 ''kube-system'' 1800000000000) \<and>
   informer_after
     (run [CallNewInformer 0 7 True, CallAddPodListener 1 10 11 12 False,
           CallAddConfigMapListener 1 0 8 ''kube-system'' 20 21 22 False,
           CallAddVolumeAttachmentListener 1 30 31 32 False] initial_world) 4 =
     Some \<lparr>kindOf = VolumeAttachments, madeBy = FromFactory 0,
           handlers = [\<lparr>AddFunc = 30, UpdateFunc = 31, DeleteFunc = 32\<rparr>]\<rparr>"
proof -
  let ?cs = "[CallNewInformer 0 7 True, CallAddPodListener 1 10 11 12 False,
              CallAddConfigMapListener 1 0 8 ''kube-system'' 20 21 22 False]"
  have "\<exists>w m. run ?cs initial_world = Inr w \<and> managers w 1 = Some m \<and>
          informerFactory m = 0 \<and> podInformer m = Some 2 \<and> configMapInformer m = Some 3 \<and>
          map_option madeBy (informers w 3) =
            Some (Filtered 8 ''kube-system'' resyncPeriodConfigMapInformer)"
    by (simp add: eval_defs AddPodListener_def AddConfigMapListener_def)
  then obtain w m where r: "run ?cs initial_world = Inr w" and m: "managers w 1 = Some m"
    and v: "informerFactory m = 0" "podInformer m = Some 2" "configMapInformer m = Some 3"
    and o: "map_option madeBy (informers w 3) =
              Some (Filtered 8 ''kube-system'' resyncPeriodConfigMapInformer)"
    by blast
  have va: "informer_after
     (run [CallNewInformer 0 7 True, CallAddPodListener 1 10 11 12 False,
           CallAddConfigMapListener 1 0 8 ''kube-system'' 20 21 22 False,
           CallAddVolumeAttachmentListener 1 30 31 32 False] initial_world) 4 =
     Some \<lparr>kindOf = VolumeAttachments, madeBy = FromFactory 0,
           handlers = [\<lparr>AddFunc = 30, UpdateFunc = 31, DeleteFunc = 32\<rparr>]\<rparr>"
    by (simp add: eval_defs AddPodListener_def AddConfigMapListener_def
        AddVolumeAttachmentListener_def informer_after_def)
  have "Some 2 \<in> set (factory_slots m)"
    using v by (simp add: factory_slots_def)
  then have "map_option defaultResync (factories w 0) = Some 0 \<and>
      map_option madeBy (informers w 2) = Some (FromFactory 0)"
    using watcher_construction [OF r m, of 0 0 "''''" 0 0 0 False] v
    by (auto simp: origin_of_def resync_of_def)
  then show ?thesis
    unfolding r using o va
    by (simp add: factory_after_def informer_after_def resyncPeriodConfigMapInformer_value)
qed

subsection \<open>C9: a refused handler\<close>

text \<open>
  C9, as amended. A registration whose handler the informer refuses returns all the same:
  on a manager of a reachable world each of the eight registrations returns a world
  (the functions have no result value in which an error could travel), whether the
  informer refuses or not, and the log is what it was: the refusal is dropped without a
  log entry.
\<close>

theorem registration_drops_refusal:
  assumes "run cs initial_world = Inr w" and "managers w im = Some m"
  shows "(\<exists>w'. AddNodeListener im a u r refused w = Inr w' \<and> logged w' = logged w) \<and>
         (\<exists>w'. AddCSINodeListener im a u r refused w = Inr w' \<and> logged w' = logged w) \<and>
         (\<exists>w'. AddPVCListener im a u r refused w = Inr w' \<and> logged w' = logged w) \<and>
         (\<exists>w'. AddPVListener im a u r refused w = Inr w' \<and> logged w' = logged w) \<and>
         (\<exists>w'. AddNamespaceListener im a u r refused w = Inr w' \<and> logged w' = logged w) \<and>
         (\<exists>w'. AddConfigMapListener im c clnt ns a u r refused w = Inr w' \<and>
               logged w' = logged w) \<and>
         (\<exists>w'. AddPodListener im a u r refused w = Inr w' \<and> logged w' = logged w) \<and>
         (\<exists>w'. AddVolumeAttachmentListener im a u r refused w = Inr w' \<and> logged w' = logged w)"
proof -
  note i = reachable_invariant [OF assms(1)]
  show ?thesis
    using AddNodeListener_returns [OF i assms(2), of a u r refused]
      AddCSINodeListener_returns [OF i assms(2), of a u r refused]
      AddPVCListener_returns [OF i assms(2), of a u r refused]
      AddPVListener_returns [OF i assms(2), of a u r refused]
      AddNamespaceListener_returns [OF i assms(2), of a u r refused]
      AddConfigMapListener_returns [OF i assms(2), of c clnt ns a u r refused]
      AddPodListener_returns [OF i assms(2), of a u r refused]
      AddVolumeAttachmentListener_returns [OF i assms(2), of a u r refused]
    by blast
qed

theorem registration_drops_refusal_witness:
  "logged_after (run [CallNewInformer 0 7 True] initial_world) =
     Some [(0, ''Created new informer factory for in-cluster client'')] \<and>
   logged_after (run [CallNewInformer 0 7 True, CallAddPodListener 1 10 11 12 True] initial_world) =
     Some [(0, ''Created new informer factory for in-cluster client'')]"
proof -
  let ?cs = "[CallNewInformer 0 7 True]"
  have "\<exists>w m. run ?cs initial_world = Inr w \<and> managers w 1 = Some m \<and>
          logged w = [(0, ''Created new informer factory for in-cluster client'')]"
    by (simp add: eval_defs)
  then obtain w m where r: "run ?cs initial_world = Inr w" and m: "managers w 1 = Some m"
    and l: "logged w = [(0, ''Created new informer factory for in-cluster client'')]"
    by blast
  from registration_drops_refusal [OF r m, of 10 11 12 True]
  obtain w' where "AddPodListener 1 10 11 12 True w = Inr w'" "logged w' = logged w"
    by blast
  moreover have "run [CallNewInformer 0 7 True, CallAddPodListener 1 10 11 12 True] initial_world =
      (case AddPodListener 1 10 11 12 True w of Inl e \<Rightarrow> Inl e | Inr w' \<Rightarrow> Inr w')"
    using r by (simp split: sum.splits)
  ultimately show ?thesis
    using r l by (simp add: logged_after_def)
qed

text \<open>
  The claim C9 as it was stated says that the refusal is logged. It is not: after a
  manager has been made, a node registration that the informer refuses leaves the log
  with the one entry of \<open>NewInformer\<close>.
\<close>

theorem refusal_is_logged_counterexample:
  "logged_after (run [CallNewInformer 0 7 True] initial_world) =
     Some [(0, ''Created new informer factory for in-cluster client'')] \<and>
   informer_after (run [CallNewInformer 0 7 True, CallAddNodeListener 1 10 11 12 True]
                     initial_world) 2 =
     Some \<lparr>kindOf = Nodes, madeBy = FromFactory 0, handlers = []\<rparr> \<and>
   logged_after (run [CallNewInformer 0 7 True, CallAddNodeListener 1 10 11 12 True]
                   initial_world) =
     Some [(0, ''Created new informer factory for in-cluster client'')]"
  by (simp add: eval_defs AddNodeListener_def logged_after_def informer_after_def)

subsection \<open>C10: what a refused registration has already done\<close>

text \<open>
  C10. When the informer refuses the handler, \<open>AddConfigMapListener\<close> returns without
  launching a run loop, yet \<open>configMapSynced\<close> is already set to the \<open>HasSynced\<close> of the
  informer in the slot; when the handler is taken, one run loop is launched. The PVC, PV,
  pod and namespace registrations set their synced predicate before the check in the
  same way, so a refused one has set it too.
\<close>

theorem refused_registration_has_set_synced:
  assumes "run cs initial_world = Inr w" and "managers w im = Some m"
  shows "(\<exists>i w' m'. AddConfigMapListener im c clnt ns a u r True w = Inr w' \<and>
            goroutines w' = goroutines w \<and> managers w' im = Some m' \<and>
            configMapInformer m' = Some i \<and> configMapSynced m' = Some (HasSynced i)) \<and>
         (\<exists>i w'. AddConfigMapListener im c clnt ns a u r False w = Inr w' \<and>
            goroutines w' = goroutines w @ [InformerRun i (Some (nextChan w))]) \<and>
         (\<exists>i w' m'. AddPVCListener im a u r True w = Inr w' \<and> managers w' im = Some m' \<and>
            pvcInformer m' = Some i \<and> pvcSynced m' = Some (HasSynced i)) \<and>
         (\<exists>i w' m'. AddPVListener im a u r True w = Inr w' \<and> managers w' im = Some m' \<and>
            pvInformer m' = Some i \<and> pvSynced m' = Some (HasSynced i)) \<and>
         (\<exists>i w' m'. AddPodListener im a u r True w = Inr w' \<and> managers w' im = Some m' \<and>
            podInformer m' = Some i \<and> podSynced m' = Some (HasSynced i)) \<and>
         (\<exists>i w' m'. AddNamespaceListener im a u r True w = Inr w' \<and> managers w' im = Some m' \<and>
            namespaceInformer m' = Some i \<and> namespaceSynced m' = Some (HasSynced i))"
proof -
  note i = reachable_invariant [OF assms(1)]
  have "\<exists>i w' m'. AddConfigMapListener im c clnt ns a u r True w = Inr w' \<and>
            goroutines w' = goroutines w \<and> managers w' im = Some m' \<and>
            configMapInformer m' = Some i \<and> configMapSynced m' = Some (HasSynced i)"
    using AddConfigMapListener_returns [OF i assms(2), of c clnt ns a u r True] by auto
  moreover have "\<exists>i w'. AddConfigMapListener im c clnt ns a u r False w = Inr w' \<and>
            goroutines w' = goroutines w @ [InformerRun i (Some (nextChan w))]"
    using AddConfigMapListener_returns [OF i assms(2), of c clnt ns a u r False] by auto
  moreover have "\<exists>i w' m'. AddPVCListener im a u r True w = Inr w' \<and> managers w' im = Some m' \<and>
            pvcInformer m' = Some i \<and> pvcSynced m' = Some (HasSynced i)"
    using AddPVCListener_returns [OF i assms(2), of a u r True] by auto
  moreover have "\<exists>i w' m'. AddPVListener im a u r True w = Inr w' \<and> managers w' im = Some m' \<and>
            pvInformer m' = Some i \<and> pvSynced m' = Some (HasSynced i)"
    using AddPVListener_returns [OF i assms(2), of a u r True] by auto
  moreover have "\<exists>i w' m'. AddPodListener im a u r True w = Inr w' \<and> managers w' im = Some m' \<and>
            podInformer m' = Some i \<and> podSynced m' = Some (HasSynced i)"
    using AddPodListener_returns [OF i assms(2), of a u r True] by auto
  moreover have "\<exists>i w' m'. AddNamespaceListener im a u r True w = Inr w' \<and>
            managers w' im = Some m' \<and>
            namespaceInformer m' = Some i \<and> namespaceSynced m' = Some (HasSynced i)"
    using AddNamespaceListener_returns [OF i assms(2), of a u r True] by auto
  ultimately show ?thesis by blast
qed

theorem refused_registration_has_set_synced_witness:
  "goroutines_after (run [CallNewInformer 0 7 True] initial_world) = Some [] \<and>
   goroutines_after
     (run [CallNewInformer 0 7 True,
           CallAddConfigMapListener 1 0 7 ''kube-system'' 10 11 12 True] initial_world) = Some [] \<and>
   map_option configMapSynced
     (manager_after
        (run [CallNewInformer 0 7 True,
              CallAddConfigMapListener 1 0 7 ''kube-system'' 10 11 12 True] initial_world) 1) =
     Some (Some (HasSynced 2))"
proof -
  let ?cs = "[CallNewInformer 0 7 True]"
  let ?c = "CallAddConfigMapListener 1 0 7 ''kube-system'' 10 11 12 True"
  have "\<exists>w m. run ?cs initial_world = Inr w \<and> managers w 1 = Some m \<and> goroutines w = [] \<and>
          nextPtr w = 2"
    by (simp add: eval_defs)
  then obtain w m where r: "run ?cs initial_world = Inr w" and m: "managers w 1 = Some m"
    and g: "goroutines w = []" and n: "nextPtr w = 2"
    by blast
  from refused_registration_has_set_synced [OF r m, of 0 7 "''kube-system''" 10 11 12]
  obtain i w' m' where a: "AddConfigMapListener 1 0 7 ''kube-system'' 10 11 12 True w = Inr w'"
    and b: "goroutines w' = goroutines w" "managers w' 1 = Some m'"
      "configMapInformer m' = Some i" "configMapSynced m' = Some (HasSynced i)"
    by blast
  have "configMapInformer m = None"
    using r m by (auto simp: eval_defs)
  then have "i = 2"
    using a b(2,3) m n
    by (auto simp: AddConfigMapListener_alt NewFilteredConfigMapInformer_def store_keeps
        split: sum.splits prod.splits)
  moreover have "run (?cs @ [?c]) initial_world = Inr w'"
    unfolding run_append r using a by simp
  ultimately show ?thesis
    using r g b by (simp add: goroutines_after_def manager_after_def)
qed

end
